theory Spec2Isabelle
  imports Main
begin

section \<open>The elevator controller of main.js\<close>

text \<open>
  The program is a single-threaded JavaScript page. Its logic lives in the global
  \<^verbatim>\<open>state\<close> object, the global \<^verbatim>\<open>doorTimer\<close> handle and four functions:
  \<^verbatim>\<open>openDoors\<close>, \<^verbatim>\<open>closeDoors\<close>, \<^verbatim>\<open>goToFloor\<close> and the auto-close timer helpers.
  The asynchronous functions suspend at \<^verbatim>\<open>await sleep(ms)\<close>, which is a
  \<^verbatim>\<open>setTimeout\<close>; everything between two suspensions runs to completion.

  The embedding keeps the browser's timer queue explicit. A suspended function is a
  pending timer that carries a defunctionalised continuation; firing the timer runs the
  rest of the function up to its next suspension. An \<^verbatim>\<open>await\<close> of a promise that is
  already settled resumes in a microtask, before any other event, so it is modelled as
  continuing at once.
\<close>

subsection \<open>Data\<close>

text \<open>\<^verbatim>\<open>state.doors\<close> is one of the strings \<^verbatim>\<open>'open'\<close> and \<^verbatim>\<open>'closed'\<close>.\<close>

datatype door = DoorOpen | DoorClosed

text \<open>
  What remains to run when a timer fires:
  \<^item> \<open>OpenSettle\<close>: the tail of \<^verbatim>\<open>openDoors\<close> after its sleep (line 249);
  \<^item> \<open>CloseSettle k\<close>: the tail of \<^verbatim>\<open>closeDoors\<close> after its sleep (line 265); \<open>k\<close> is
    \<open>Some target\<close> when \<^verbatim>\<open>goToFloor(target)\<close> awaits this call at line 284, and \<open>None\<close>
    when nobody awaits it (Close button, auto-close timer);
  \<^item> \<open>TravelTick i steps step temp\<close>: the travel loop of \<^verbatim>\<open>goToFloor\<close> suspended at
    line 303 with its local variables;
  \<^item> \<open>AutoClose\<close>: the callback armed by \<^verbatim>\<open>startDoorAutoCloseTimer\<close> (line 230).
\<close>

datatype cont =
    OpenSettle
  | CloseSettle "int option"
  | TravelTick nat nat int int
  | AutoClose

text \<open>A pending timer: its handle, the time it is due, its callback.\<close>

type_synonym timer = "nat \<times> nat \<times> cont"

definition tid :: "timer \<Rightarrow> nat" where
  "tid t = fst t"

definition due :: "timer \<Rightarrow> nat" where
  "due t = fst (snd t)"

definition tcont :: "timer \<Rightarrow> cont" where
  "tcont t = snd (snd t)"

text \<open>
  The configuration read from CSS custom properties: \<^verbatim>\<open>--floors\<close> (line 31) and
  \<^verbatim>\<open>--door-time\<close> (lines 248 and 264). The style sheet is not part of the sources,
  so both are parameters.
\<close>

record config =
  floors :: int
  doorTime :: nat

text \<open>Line 35 and line 69.\<close>

definition SPEED_PER_FLOOR :: nat where
  "SPEED_PER_FLOOR = 900"

definition doorAutoCloseMs :: nat where
  "doorAutoCloseMs = 5000"

text \<open>
  The whole state of the page as far as the logic can see it:
  \<^item> the five fields of \<^verbatim>\<open>state\<close> (lines 60 to 66), \<^verbatim>\<open>direction\<close> being \<open>-1\<close>, \<open>0\<close>
    or \<open>1\<close>;
  \<^item> \<^verbatim>\<open>doorTimer\<close> (line 68), \<open>None\<close> for \<^verbatim>\<open>null\<close>;
  \<^item> the browser's pending timers in order of creation, the next handle and the clock;
  \<^item> what \<^verbatim>\<open>refreshButtons\<close> last wrote to the buttons: floor button \<open>f\<close> is disabled
    iff \<open>btn_moving \<or> f = btn_current\<close>, the highlighted button is \<open>btn_active\<close>;
  \<^item> the header renderings made by \<^verbatim>\<open>updateHeader\<close>, each with its time, floor and
    direction.
  The class toggles that animate the car and landing doors (lines 118 to 137, 242 to
  245, 259 to 261, 265) are write-only, and so is the timer of \<^verbatim>\<open>closeHallDoors\<close>,
  whose callback only removes a class; they are left out, as are the style writes of
  lines 297 and 298.
\<close>

record world =
  current :: int
  direction :: int
  moving :: bool
  doors :: door
  selected :: int
  doorTimer :: "nat option"
  timers :: "timer list"
  nextId :: nat
  now :: nat
  btn_moving :: bool
  btn_current :: int
  btn_active :: int
  openBtn_disabled :: bool
  closeBtn_disabled :: bool
  header :: "(nat \<times> int \<times> int) list"

subsection \<open>Rendering hooks\<close>

text \<open>Lines 203 to 214.\<close>

definition refreshButtons :: "world \<Rightarrow> world" where
  "refreshButtons w =
     w\<lparr>btn_moving := moving w,
       btn_current := current w,
       btn_active := selected w,
       openBtn_disabled := (moving w \<or> doors w = DoorOpen),
       closeBtn_disabled := (moving w \<or> doors w = DoorClosed)\<rparr>"

text \<open>Lines 325 to 336: the title and the direction icons are redrawn.\<close>

definition updateHeader :: "world \<Rightarrow> world" where
  "updateHeader w = w\<lparr>header := header w @ [(now w, current w, direction w)]\<rparr>"

subsection \<open>Timers\<close>

text \<open>\<^verbatim>\<open>setTimeout(callback, ms)\<close>: the new timer gets the next handle.\<close>

definition setTimeout :: "nat \<Rightarrow> cont \<Rightarrow> world \<Rightarrow> world" where
  "setTimeout ms c w =
     w\<lparr>timers := timers w @ [(nextId w, now w + ms, c)], nextId := Suc (nextId w)\<rparr>"

text \<open>\<^verbatim>\<open>clearTimeout(h)\<close>.\<close>

definition clearTimeout :: "nat \<Rightarrow> world \<Rightarrow> world" where
  "clearTimeout h w = w\<lparr>timers := filter (\<lambda>t. tid t \<noteq> h) (timers w)\<rparr>"

text \<open>
  Lines 221 to 226. The test \<^verbatim>\<open>if (doorTimer)\<close> is false for \<^verbatim>\<open>null\<close> and for the
  number \<open>0\<close>.
\<close>

definition clearDoorTimer :: "world \<Rightarrow> world" where
  "clearDoorTimer w =
     (case doorTimer w of
        None \<Rightarrow> w
      | Some h \<Rightarrow> if h = 0 then w else (clearTimeout h w)\<lparr>doorTimer := None\<rparr>)"

text \<open>Lines 227 to 232, always called with the default \<^verbatim>\<open>ms = doorAutoCloseMs\<close>.\<close>

definition startDoorAutoCloseTimer :: "world \<Rightarrow> world" where
  "startDoorAutoCloseTimer w =
     (let w1 = clearDoorTimer w
      in (setTimeout doorAutoCloseMs AutoClose w1)\<lparr>doorTimer := Some (nextId w1)\<rparr>)"

subsection \<open>Doors\<close>

text \<open>Lines 235 to 250, up to the sleep; the tail is \<open>OpenSettle\<close>.\<close>

definition openDoors :: "config \<Rightarrow> world \<Rightarrow> world" where
  "openDoors cfg w =
     (if doors w = DoorOpen then refreshButtons (startDoorAutoCloseTimer w)
      else setTimeout (doorTime cfg) OpenSettle (refreshButtons (w\<lparr>doors := DoorOpen\<rparr>)))"

text \<open>
  Lines 252 to 266, up to the sleep; the tail is \<open>CloseSettle k\<close>. The boolean tells
  whether the call returned without suspending, so that a caller awaiting it goes on at
  once.
\<close>

definition closeDoors :: "config \<Rightarrow> int option \<Rightarrow> world \<Rightarrow> bool \<times> world" where
  "closeDoors cfg k w =
     (let w1 = clearDoorTimer w
      in if doors w1 = DoorClosed then (True, refreshButtons w1)
         else (False,
               setTimeout (doorTime cfg) (CloseSettle k)
                 (refreshButtons (w1\<lparr>doors := DoorClosed\<rparr>))))"

subsection \<open>Travel\<close>

text \<open>Lines 309 to 313.\<close>

definition arrive :: "config \<Rightarrow> world \<Rightarrow> world" where
  "arrive cfg w =
     openDoors cfg
       (refreshButtons (w\<lparr>moving := False, direction := 0, selected := current w\<rparr>))"

text \<open>
  The loop head of line 302 with the locals \<^verbatim>\<open>i\<close>, \<^verbatim>\<open>steps\<close>, \<^verbatim>\<open>step\<close> and
  \<^verbatim>\<open>temp\<close>: another sleep, or the code after the loop.
\<close>

definition travel_loop :: "config \<Rightarrow> nat \<Rightarrow> nat \<Rightarrow> int \<Rightarrow> int \<Rightarrow> world \<Rightarrow> world" where
  "travel_loop cfg i steps step temp w =
     (if i < steps then setTimeout SPEED_PER_FLOOR (TravelTick i steps step temp) w
      else arrive cfg w)"

text \<open>Lines 304 to 306 and the increment of \<^verbatim>\<open>i\<close>, run when the sleep is over.\<close>

definition travel_tick :: "config \<Rightarrow> nat \<Rightarrow> nat \<Rightarrow> int \<Rightarrow> int \<Rightarrow> world \<Rightarrow> world" where
  "travel_tick cfg i steps step temp w =
     travel_loop cfg (Suc i) steps step (temp + step)
       (updateHeader (w\<lparr>current := temp + step\<rparr>))"

text \<open>Lines 286 to 301: \<^verbatim>\<open>goToFloor(target)\<close> from the return of \<^verbatim>\<open>closeDoors\<close> on.\<close>

definition goToFloor_resume :: "config \<Rightarrow> int \<Rightarrow> world \<Rightarrow> world" where
  "goToFloor_resume cfg target w =
     (let steps = nat \<bar>target - current w\<bar>
      in if steps = 0 then openDoors cfg (updateHeader (w\<lparr>direction := 0\<rparr>))
         else let w1 = refreshButtons (w\<lparr>moving := True\<rparr>)
              in travel_loop cfg 0 steps (direction w1) (current w1) w1)"

text \<open>Lines 275 to 284.\<close>

definition goToFloor :: "config \<Rightarrow> int \<Rightarrow> world \<Rightarrow> world" where
  "goToFloor cfg target w =
     (let w1 = refreshButtons (w\<lparr>selected := target\<rparr>)
      in if moving w1 \<or> target = current w1 then w1
         else let w2 = updateHeader (w1\<lparr>direction := (if target > current w1 then 1 else -1)\<rparr>);
                  r = closeDoors cfg (Some target) w2
              in if fst r then goToFloor_resume cfg target (snd r) else snd r)"

subsection \<open>The event loop\<close>

text \<open>The callback of a timer.\<close>

fun run_cont :: "config \<Rightarrow> cont \<Rightarrow> world \<Rightarrow> world" where
  "run_cont cfg OpenSettle w = startDoorAutoCloseTimer w"
| "run_cont cfg (CloseSettle None) w = w"
| "run_cont cfg (CloseSettle (Some target)) w = goToFloor_resume cfg target w"
| "run_cont cfg (TravelTick i steps step temp) w = travel_tick cfg i steps step temp w"
| "run_cont cfg AutoClose w = (if \<not> moving w then snd (closeDoors cfg None w) else w)"

text \<open>
  The timer the browser fires next: the one due first, the older one among timers due
  at the same time.
\<close>

fun earliest :: "timer list \<Rightarrow> timer option" where
  "earliest [] = None"
| "earliest (t # ts) =
     (case earliest ts of
        None \<Rightarrow> Some t
      | Some u \<Rightarrow> if due t \<le> due u then Some t else Some u)"

text \<open>
  Firing the next timer: it leaves the queue, the clock reaches its due time and its
  callback runs.
\<close>

definition pop_timer :: "timer \<Rightarrow> world \<Rightarrow> world" where
  "pop_timer t w = w\<lparr>timers := remove1 t (timers w), now := max (now w) (due t)\<rparr>"

definition fire :: "config \<Rightarrow> world \<Rightarrow> world" where
  "fire cfg w =
     (case earliest (timers w) of
        None \<Rightarrow> w
      | Some t \<Rightarrow> run_cont cfg (tcont t) (pop_timer t w))"

text \<open>
  What can happen next: a click on the button of a floor, on Open, on Close (lines 159,
  171, 188, 340, 341), the next timer, or time passing.
\<close>

datatype event = FloorBtn int | OpenBtn | CloseBtn | Fire | Wait nat

text \<open>
  \<^verbatim>\<open>buildControls\<close> (lines 149 to 195) makes a button for each of the five floors
  \<open>max\<close> down to \<open>max - 4\<close> and the button G for floor 0, which takes slot 0 of
  \<^verbatim>\<open>floorBtnEls\<close>. \<^verbatim>\<open>refreshButtons\<close> reaches the buttons in the slots \<open>0\<close> to
  \<open>floors - 1\<close> only; a button outside these slots, or the row button of floor 0 that
  G has displaced, is never disabled.
\<close>

definition floorBtn_enabled :: "config \<Rightarrow> world \<Rightarrow> int \<Rightarrow> bool" where
  "floorBtn_enabled cfg w f =
     (let mx = floors cfg - 1
      in (mx - 4 \<le> f \<and> f \<le> mx \<and> f \<le> 0)
         \<or> (f = 0 \<and> floors cfg \<le> 0)
         \<or> (((mx - 4 \<le> f \<and> f \<le> mx \<and> 0 < f) \<or> (f = 0 \<and> 0 < floors cfg))
             \<and> \<not> (btn_moving w \<or> f = btn_current w)))"

definition enabled :: "config \<Rightarrow> event \<Rightarrow> world \<Rightarrow> bool" where
  "enabled cfg e w =
     (case e of
        FloorBtn f \<Rightarrow> floorBtn_enabled cfg w f
      | OpenBtn \<Rightarrow> \<not> openBtn_disabled w
      | CloseBtn \<Rightarrow> \<not> closeBtn_disabled w
      | Fire \<Rightarrow> timers w \<noteq> []
      | Wait d \<Rightarrow> list_all (\<lambda>t. now w + d \<le> due t) (timers w))"

definition exec :: "config \<Rightarrow> event \<Rightarrow> world \<Rightarrow> world" where
  "exec cfg e w =
     (case e of
        FloorBtn f \<Rightarrow> goToFloor cfg f w
      | OpenBtn \<Rightarrow> openDoors cfg w
      | CloseBtn \<Rightarrow> snd (closeDoors cfg None w)
      | Fire \<Rightarrow> fire cfg w
      | Wait d \<Rightarrow> w\<lparr>now := now w + d\<rparr>)"

definition step :: "config \<Rightarrow> event \<Rightarrow> world \<Rightarrow> world option" where
  "step cfg e w = (if enabled cfg e w then Some (exec cfg e w) else None)"

fun run :: "config \<Rightarrow> event list \<Rightarrow> world \<Rightarrow> world option" where
  "run cfg [] w = Some w"
| "run cfg (e # es) w = (case step cfg e w of None \<Rightarrow> None | Some w' \<Rightarrow> run cfg es w')"

text \<open>
  The page when the script has run: the initial \<^verbatim>\<open>state\<close> of lines 60 to 69, then
  \<^verbatim>\<open>init()\<close> (lines 350 to 357).
\<close>

definition state0 :: world where
  "state0 =
     \<lparr>current = 0, direction = 0, moving = False, doors = DoorClosed, selected = 0,
      doorTimer = None, timers = [], nextId = 1, now = 0,
      btn_moving = False, btn_current = 0, btn_active = 0,
      openBtn_disabled = False, closeBtn_disabled = False, header = []\<rparr>"

definition init :: "config \<Rightarrow> world" where
  "init cfg = openDoors cfg (refreshButtons (updateHeader (refreshButtons state0)))"

inductive reachable :: "config \<Rightarrow> world \<Rightarrow> bool" for cfg :: config where
  reach_init: "reachable cfg (init cfg)"
| reach_step: "reachable cfg w \<Longrightarrow> step cfg e w = Some w' \<Longrightarrow> reachable cfg w'"

subsection \<open>Invariants of the timer queue\<close>

text \<open>
  Handles are positive and below the next handle; no pending timer is overdue; the
  pending auto-close callback, if any, is the timer \<^verbatim>\<open>doorTimer\<close> refers to, and
  \<^verbatim>\<open>doorTimer\<close> refers to no other pending timer.
\<close>

definition timers_ok :: "world \<Rightarrow> bool" where
  "timers_ok w =
     (0 < nextId w
      \<and> (\<forall>t \<in> set (timers w). tid t < nextId w \<and> now w \<le> due t
            \<and> (tcont t = AutoClose \<longleftrightarrow> doorTimer w = Some (tid t)))
      \<and> (\<forall>h. doorTimer w = Some h \<longrightarrow> 0 < h \<and> h < nextId w))"

text \<open>Some \<^verbatim>\<open>goToFloor\<close> is suspended in its \<^verbatim>\<open>await closeDoors()\<close>.\<close>

definition closing_pending :: "world \<Rightarrow> bool" where
  "closing_pending w = (\<exists>t \<in> set (timers w). \<exists>g. tcont t = CloseSettle (Some g))"

text \<open>A direction is shown without motion only during that suspension.\<close>

definition direction_ok :: "world \<Rightarrow> bool" where
  "direction_ok w = (\<not> moving w \<and> direction w \<noteq> 0 \<longrightarrow> closing_pending w)"

definition inv :: "world \<Rightarrow> bool" where
  "inv w = (timers_ok w \<and> direction_ok w)"

subsection \<open>One travel sequence at a time\<close>

text \<open>
  The continuations that belong to a travel sequence: \<^verbatim>\<open>goToFloor\<close> waiting for the
  doors to close, or suspended in its travel loop.
\<close>

fun is_travel :: "cont \<Rightarrow> bool" where
  "is_travel (TravelTick i n s temp) = True"
| "is_travel (CloseSettle (Some target)) = True"
| "is_travel c = False"

text \<open>The pending timers of travel sequences.\<close>

definition travel_timers :: "world \<Rightarrow> timer list" where
  "travel_timers w = filter (\<lambda>t. is_travel (tcont t)) (timers w)"

text \<open>
  A single travel loop is in flight: it started at floor \<open>c0\<close> at time \<open>t0\<close> with
  \<open>n\<close> steps of \<open>s\<close> floors each, has made \<open>i\<close> of them, and its next tick is the only
  pending timer of a travel sequence.
\<close>

definition travelling :: "nat \<Rightarrow> nat \<Rightarrow> int \<Rightarrow> int \<Rightarrow> nat \<Rightarrow> world \<Rightarrow> bool" where
  "travelling i n s c0 t0 w =
     (timers_ok w \<and> moving w \<and> direction w = s \<and> current w = c0 + int i * s \<and> i < n
      \<and> (\<exists>h. travel_timers w =
             [(h, t0 + Suc i * SPEED_PER_FLOOR, TravelTick i n s (c0 + int i * s))]))"

text \<open>
  A bound on the timers that can fire before the next timer of a travel sequence: the
  end of an opening arms an auto-close timer, which may start a closing.
\<close>

fun door_weight :: "cont \<Rightarrow> nat" where
  "door_weight OpenSettle = 3"
| "door_weight AutoClose = 2"
| "door_weight (CloseSettle None) = 1"
| "door_weight c = 0"

definition door_work :: "world \<Rightarrow> nat" where
  "door_work w = sum_list (map (\<lambda>t. door_weight (tcont t)) (timers w))"

text \<open>Two states that differ at most in the doors, the door timers and the clock.\<close>

definition same_car :: "world \<Rightarrow> world \<Rightarrow> bool" where
  "same_car w' w =
     (travel_timers w' = travel_timers w \<and> moving w' = moving w
      \<and> direction w' = direction w \<and> current w' = current w
      \<and> selected w' = selected w \<and> header w' = header w)"

text \<open>
  The header renderings of the ticks \<open>i + 1\<close> to \<open>n\<close> of a travel that starts at floor
  \<open>c0\<close> at time \<open>t0\<close>: one every \<open>SPEED_PER_FLOOR\<close>, each one floor further.
\<close>

definition tick_log :: "nat \<Rightarrow> int \<Rightarrow> int \<Rightarrow> nat \<Rightarrow> nat \<Rightarrow> (nat \<times> int \<times> int) list" where
  "tick_log t0 c0 s i n =
     map (\<lambda>j. (t0 + j * SPEED_PER_FLOOR, c0 + int j * s, s)) [Suc i..<Suc n]"

subsection \<open>A concrete configuration and concrete states\<close>

text \<open>The configuration the README documents: six floors, doors that take 700 ms.\<close>

definition default_cfg :: config where
  "default_cfg = \<lparr>floors = 6, doorTime = 700\<rparr>"

text \<open>
  States used as concrete inputs below; each is shown to be reached from the initial
  page by the clicks and timers given with it.
\<close>

definition ex_idle_closed :: world where
  "ex_idle_closed =
     \<lparr>current = 0, direction = 0, moving = False, doors = DoorClosed, selected = 0,
      doorTimer = None, timers = [], nextId = 4, now = 6400,
      btn_moving = False, btn_current = 0, btn_active = 0,
      openBtn_disabled = False, closeBtn_disabled = True, header = [(0, 0, 0)]\<rparr>"

definition ex_travelling :: world where
  "ex_travelling =
     \<lparr>current = 0, direction = 1, moving = True, doors = DoorClosed, selected = 3,
      doorTimer = None, timers = [(4, 7300, TravelTick 0 3 1 0)], nextId = 5, now = 6400,
      btn_moving = True, btn_current = 0, btn_active = 3,
      openBtn_disabled = True, closeBtn_disabled = True,
      header = [(0, 0, 0), (6400, 0, 1)]\<rparr>"

definition ex_stray :: world where
  "ex_stray =
     \<lparr>current = 0, direction = 0, moving = False, doors = DoorClosed, selected = 0,
      doorTimer = Some 3, timers = [(2, 700, CloseSettle None), (3, 5700, AutoClose)],
      nextId = 4, now = 700,
      btn_moving = False, btn_current = 0, btn_active = 0,
      openBtn_disabled = False, closeBtn_disabled = True, header = [(0, 0, 0)]\<rparr>"

definition ex_closing :: world where
  "ex_closing =
     \<lparr>current = 0, direction = 1, moving = False, doors = DoorClosed, selected = 3,
      doorTimer = None, timers = [(3, 1700, CloseSettle (Some 3))], nextId = 4, now = 1000,
      btn_moving = False, btn_current = 0, btn_active = 3,
      openBtn_disabled = False, closeBtn_disabled = True,
      header = [(0, 0, 0), (1000, 0, 1)]\<rparr>"

definition ex_at_floor1 :: world where
  "ex_at_floor1 =
     \<lparr>current = 1, direction = 0, moving = False, doors = DoorOpen,
      selected = 1, doorTimer = Some 6, timers = [(6, 8300, AutoClose)],
      nextId = 7, now = 3300, btn_moving = False, btn_current = 1,
      btn_active = 1, openBtn_disabled = True, closeBtn_disabled = False,
      header = [(0, 0, 0), (1000, 0, 1), (2600, 1, 1)]\<rparr>"

section \<open>Basic facts\<close>

lemmas prim_defs = refreshButtons_def updateHeader_def setTimeout_def clearTimeout_def
  clearDoorTimer_def startDoorAutoCloseTimer_def tid_def due_def tcont_def

lemma timers_ok_refreshButtons [simp]: "timers_ok (refreshButtons w) = timers_ok w"
  by (simp add: timers_ok_def refreshButtons_def)

lemma timers_ok_updateHeader [simp]: "timers_ok (updateHeader w) = timers_ok w"
  by (simp add: timers_ok_def updateHeader_def)

lemma timers_ok_setTimeout:
  "timers_ok w \<Longrightarrow> c \<noteq> AutoClose \<Longrightarrow> timers_ok (setTimeout ms c w)"
  by (auto simp: timers_ok_def prim_defs less_Suc_eq)

lemma timers_ok_clearDoorTimer: "timers_ok w \<Longrightarrow> timers_ok (clearDoorTimer w)"
  by (auto simp: timers_ok_def prim_defs split: option.splits)

lemma clearDoorTimer_none:
  "timers_ok w \<Longrightarrow> doorTimer (clearDoorTimer w) = None"
  by (auto simp: timers_ok_def prim_defs split: option.splits)

lemma clearDoorTimer_timers:
  assumes "timers_ok w"
  shows "timers (clearDoorTimer w) = filter (\<lambda>t. tcont t \<noteq> AutoClose) (timers w)"
proof (cases "doorTimer w")
  case None
  with assms have "\<forall>t \<in> set (timers w). tcont t \<noteq> AutoClose"
    by (simp add: timers_ok_def)
  then have "filter (\<lambda>t. tcont t \<noteq> AutoClose) (timers w) = timers w"
    by (simp add: filter_id_conv)
  with None show ?thesis by (simp add: clearDoorTimer_def)
next
  case (Some h)
  with assms have h: "0 < h" and
    eq: "\<forall>t \<in> set (timers w). (tcont t = AutoClose) = (tid t = h)"
    by (auto simp: timers_ok_def)
  from eq have "filter (\<lambda>t. tid t \<noteq> h) (timers w) = filter (\<lambda>t. tcont t \<noteq> AutoClose) (timers w)"
    by (intro filter_cong) auto
  with Some h show ?thesis by (simp add: clearDoorTimer_def clearTimeout_def)
qed

lemma timers_ok_start: "timers_ok w \<Longrightarrow> timers_ok (startDoorAutoCloseTimer w)"
  by (auto simp: timers_ok_def prim_defs Let_def less_Suc_eq split: option.splits)


lemma closing_pending_refreshButtons [simp]:
  "closing_pending (refreshButtons w) = closing_pending w"
  by (simp add: closing_pending_def refreshButtons_def)

lemma closing_pending_updateHeader [simp]:
  "closing_pending (updateHeader w) = closing_pending w"
  by (simp add: closing_pending_def updateHeader_def)

lemma closing_pending_setTimeout:
  "closing_pending w \<Longrightarrow> closing_pending (setTimeout ms c w)"
  by (auto simp: closing_pending_def setTimeout_def)

lemma closing_pending_setTimeout_new:
  "closing_pending (setTimeout ms (CloseSettle (Some g)) w)"
  by (auto simp: closing_pending_def setTimeout_def tcont_def)

lemma closing_pending_clearDoorTimer:
  "timers_ok w \<Longrightarrow> closing_pending (clearDoorTimer w) = closing_pending w"
  by (simp add: closing_pending_def clearDoorTimer_timers) fastforce

lemma closing_pending_doorTimer [simp]:
  "closing_pending (w\<lparr>doorTimer := h\<rparr>) = closing_pending w"
  by (simp add: closing_pending_def)

lemma closing_pending_start:
  "timers_ok w \<Longrightarrow> closing_pending w \<Longrightarrow> closing_pending (startDoorAutoCloseTimer w)"
  by (simp add: startDoorAutoCloseTimer_def Let_def closing_pending_setTimeout
      closing_pending_clearDoorTimer)

lemma refreshButtons_frame [simp]:
  "current (refreshButtons w) = current w" "direction (refreshButtons w) = direction w"
  "moving (refreshButtons w) = moving w" "selected (refreshButtons w) = selected w"
  "doors (refreshButtons w) = doors w" "now (refreshButtons w) = now w"
  "nextId (refreshButtons w) = nextId w" "header (refreshButtons w) = header w"
  "timers (refreshButtons w) = timers w" "doorTimer (refreshButtons w) = doorTimer w"
  by (simp_all add: refreshButtons_def)

lemma updateHeader_frame [simp]:
  "current (updateHeader w) = current w" "direction (updateHeader w) = direction w"
  "moving (updateHeader w) = moving w" "selected (updateHeader w) = selected w"
  "doors (updateHeader w) = doors w" "now (updateHeader w) = now w"
  "nextId (updateHeader w) = nextId w"
  "timers (updateHeader w) = timers w" "doorTimer (updateHeader w) = doorTimer w"
  by (simp_all add: updateHeader_def)

lemma setTimeout_frame [simp]:
  "current (setTimeout ms c w) = current w" "direction (setTimeout ms c w) = direction w"
  "moving (setTimeout ms c w) = moving w" "selected (setTimeout ms c w) = selected w"
  "doors (setTimeout ms c w) = doors w" "now (setTimeout ms c w) = now w"
  "header (setTimeout ms c w) = header w" "doorTimer (setTimeout ms c w) = doorTimer w"
  by (simp_all add: setTimeout_def)

lemma clearDoorTimer_frame [simp]:
  "current (clearDoorTimer w) = current w" "direction (clearDoorTimer w) = direction w"
  "moving (clearDoorTimer w) = moving w" "selected (clearDoorTimer w) = selected w"
  "doors (clearDoorTimer w) = doors w" "now (clearDoorTimer w) = now w"
  "nextId (clearDoorTimer w) = nextId w" "header (clearDoorTimer w) = header w"
  by (simp_all add: clearDoorTimer_def clearTimeout_def split: option.splits)

lemma start_frame [simp]:
  "current (startDoorAutoCloseTimer w) = current w"
  "direction (startDoorAutoCloseTimer w) = direction w"
  "moving (startDoorAutoCloseTimer w) = moving w"
  "selected (startDoorAutoCloseTimer w) = selected w"
  "doors (startDoorAutoCloseTimer w) = doors w"
  "now (startDoorAutoCloseTimer w) = now w"
  "header (startDoorAutoCloseTimer w) = header w"
  by (simp_all add: startDoorAutoCloseTimer_def setTimeout_def Let_def)

lemma openDoors_frame [simp]:
  "current (openDoors cfg w) = current w" "direction (openDoors cfg w) = direction w"
  "moving (openDoors cfg w) = moving w" "selected (openDoors cfg w) = selected w"
  "now (openDoors cfg w) = now w" "header (openDoors cfg w) = header w"
  by (simp_all add: openDoors_def setTimeout_def refreshButtons_def)

lemma closeDoors_frame [simp]:
  "current (snd (closeDoors cfg k w)) = current w"
  "direction (snd (closeDoors cfg k w)) = direction w"
  "moving (snd (closeDoors cfg k w)) = moving w"
  "selected (snd (closeDoors cfg k w)) = selected w"
  "now (snd (closeDoors cfg k w)) = now w"
  "header (snd (closeDoors cfg k w)) = header w"
  by (simp_all add: closeDoors_def setTimeout_def refreshButtons_def Let_def)

lemma closeDoors_doors [simp]: "doors (snd (closeDoors cfg k w)) = DoorClosed"
  by (simp add: closeDoors_def setTimeout_def refreshButtons_def Let_def)

lemma timers_ok_fields [simp]:
  "timers_ok (w\<lparr>doors := d\<rparr>) = timers_ok w"
  "timers_ok (w\<lparr>moving := m\<rparr>) = timers_ok w"
  "timers_ok (w\<lparr>direction := r\<rparr>) = timers_ok w"
  "timers_ok (w\<lparr>current := c\<rparr>) = timers_ok w"
  "timers_ok (w\<lparr>selected := s\<rparr>) = timers_ok w"
  by (simp_all add: timers_ok_def)

lemma closing_pending_fields [simp]:
  "closing_pending (w\<lparr>doors := d\<rparr>) = closing_pending w"
  "closing_pending (w\<lparr>moving := m\<rparr>) = closing_pending w"
  "closing_pending (w\<lparr>direction := r\<rparr>) = closing_pending w"
  "closing_pending (w\<lparr>current := c\<rparr>) = closing_pending w"
  "closing_pending (w\<lparr>selected := s\<rparr>) = closing_pending w"
  by (simp_all add: closing_pending_def)

lemma timers_ok_openDoors: "timers_ok w \<Longrightarrow> timers_ok (openDoors cfg w)"
  by (simp add: openDoors_def timers_ok_start timers_ok_setTimeout)

lemma closing_pending_openDoors:
  "timers_ok w \<Longrightarrow> closing_pending w \<Longrightarrow> closing_pending (openDoors cfg w)"
  by (simp add: openDoors_def closing_pending_start closing_pending_setTimeout)

lemma timers_ok_closeDoors: "timers_ok w \<Longrightarrow> timers_ok (snd (closeDoors cfg k w))"
  by (simp add: closeDoors_def Let_def timers_ok_clearDoorTimer timers_ok_setTimeout)

lemma closing_pending_closeDoors:
  "timers_ok w \<Longrightarrow> closing_pending w \<Longrightarrow> closing_pending (snd (closeDoors cfg k w))"
  by (simp add: closeDoors_def Let_def closing_pending_clearDoorTimer closing_pending_setTimeout)

lemma closeDoors_suspended:
  "\<not> fst (closeDoors cfg (Some g) w) \<Longrightarrow> closing_pending (snd (closeDoors cfg (Some g) w))"
  by (simp add: closeDoors_def Let_def closing_pending_setTimeout_new split: if_splits)

lemma inv_openDoors: "inv w \<Longrightarrow> inv (openDoors cfg w)"
  by (auto simp: inv_def direction_ok_def timers_ok_openDoors closing_pending_openDoors)

lemma inv_closeDoors: "inv w \<Longrightarrow> inv (snd (closeDoors cfg k w))"
  by (auto simp: inv_def direction_ok_def timers_ok_closeDoors closing_pending_closeDoors)


lemma inv_arrive: "timers_ok w \<Longrightarrow> inv (arrive cfg w)"
  by (simp add: inv_def direction_ok_def arrive_def timers_ok_openDoors)

lemma inv_setTimeout:
  "inv w \<Longrightarrow> c \<noteq> AutoClose \<Longrightarrow> inv (setTimeout ms c w)"
  by (auto simp: inv_def direction_ok_def timers_ok_setTimeout closing_pending_setTimeout)

lemma inv_travel_loop:
  "inv w \<Longrightarrow> inv (travel_loop cfg i steps stp temp w)"
proof -
  assume w: "inv w"
  then have "timers_ok w" by (simp add: inv_def)
  then have "inv (arrive cfg w)" by (rule inv_arrive)
  with w show ?thesis by (simp add: travel_loop_def inv_setTimeout)
qed

lemma inv_travel_tick:
  "inv w \<Longrightarrow> inv (travel_tick cfg i steps stp temp w)"
  unfolding travel_tick_def
  by (rule inv_travel_loop) (simp add: inv_def direction_ok_def)

lemma inv_goToFloor_resume:
  "timers_ok w \<Longrightarrow> inv (goToFloor_resume cfg target w)"
proof (cases "nat \<bar>target - current w\<bar> = 0")
  case True
  assume "timers_ok w"
  then have "inv (updateHeader (w\<lparr>direction := 0\<rparr>))"
    by (simp add: inv_def direction_ok_def)
  with True show ?thesis
    by (simp add: goToFloor_resume_def inv_openDoors)
next
  case False
  assume "timers_ok w"
  then have "inv (refreshButtons (w\<lparr>moving := True\<rparr>))"
    by (simp add: inv_def direction_ok_def)
  with False show ?thesis
    by (simp add: goToFloor_resume_def Let_def inv_travel_loop)
qed

lemma inv_goToFloor: 
  assumes "inv w" 
  shows "inv (goToFloor cfg target w)"
proof -
  let ?w1 = "refreshButtons (w\<lparr>selected := target\<rparr>)"
  let ?w2 = "updateHeader (?w1\<lparr>direction := (if target > current ?w1 then 1 else -1)\<rparr>)"
  let ?r = "closeDoors cfg (Some target) ?w2"
  from assms have w1: "inv ?w1"
    by (simp add: inv_def direction_ok_def)
  from assms have ok2: "timers_ok ?w2"
    by (simp add: inv_def)
  then have ok3: "timers_ok (snd ?r)"
    by (rule timers_ok_closeDoors)
  show ?thesis
  proof (cases "moving ?w1 \<or> target = current ?w1")
    case True
    with w1 show ?thesis by (simp add: goToFloor_def Let_def)
  next
    case False
    show ?thesis
    proof (cases "fst ?r")
      case True
      with False inv_goToFloor_resume [OF ok3] show ?thesis
        by (simp add: goToFloor_def Let_def)
    next
      case f: False
      then have "closing_pending (snd ?r)" by (rule closeDoors_suspended)
      with ok3 have "inv (snd ?r)" by (simp add: inv_def direction_ok_def)
      with False f show ?thesis by (simp add: goToFloor_def Let_def)
    qed
  qed
qed


lemma inv_start: "inv w \<Longrightarrow> inv (startDoorAutoCloseTimer w)"
  by (auto simp: inv_def direction_ok_def timers_ok_start closing_pending_start)

lemma earliest_None: "earliest ts = None \<longleftrightarrow> ts = []"
  by (cases ts) (auto split: option.splits if_splits)

lemma earliest_Some:
  "earliest ts = Some t \<Longrightarrow> t \<in> set ts \<and> (\<forall>u \<in> set ts. due t \<le> due u)"
proof (induction ts arbitrary: t)
  case Nil
  then show ?case by simp
next
  case (Cons a ts)
  show ?case
  proof (cases "earliest ts")
    case None
    then have "ts = []" by (simp add: earliest_None)
    with Cons.prems show ?thesis by simp
  next
    case (Some u)
    with Cons.IH have u: "u \<in> set ts" "\<forall>v \<in> set ts. due u \<le> due v" by auto
    from Cons.prems Some u show ?thesis
      by (auto split: if_splits)
  qed
qed


lemma timers_ok_pop_timer:
  assumes "timers_ok w" "earliest (timers w) = Some t"
  shows "timers_ok (pop_timer t w)" "now (pop_timer t w) = due t"
proof -
  from assms(2) have t: "t \<in> set (timers w)" "\<forall>u \<in> set (timers w). due t \<le> due u"
    using earliest_Some by blast+
  from assms(1) t(1) have "now w \<le> due t" by (simp add: timers_ok_def)
  then show "now (pop_timer t w) = due t" by (simp add: pop_timer_def)
  have sub: "set (remove1 t (timers w)) \<subseteq> set (timers w)" by (rule set_remove1_subset)
  with assms(1) t(2) \<open>now w \<le> due t\<close> show "timers_ok (pop_timer t w)"
    unfolding timers_ok_def pop_timer_def by (auto simp: max_absorb2)
qed

lemma closing_pending_pop_timer:
  assumes "closing_pending w" "\<forall>g. tcont t \<noteq> CloseSettle (Some g)"
  shows "closing_pending (pop_timer t w)"
proof -
  from assms(1) obtain u g where u: "u \<in> set (timers w)" "tcont u = CloseSettle (Some g)"
    by (auto simp: closing_pending_def)
  with assms(2) have "u \<noteq> t" by auto
  with u(1) have "u \<in> set (remove1 t (timers w))" by simp
  with u(2) show ?thesis by (auto simp: closing_pending_def pop_timer_def)
qed

lemma pop_timer_frame [simp]:
  "moving (pop_timer t w) = moving w" "direction (pop_timer t w) = direction w"
  "current (pop_timer t w) = current w" "selected (pop_timer t w) = selected w"
  "doors (pop_timer t w) = doors w"
  by (simp_all add: pop_timer_def)

lemma inv_run_cont:
  assumes "timers_ok w'" "(\<forall>g. c \<noteq> CloseSettle (Some g)) \<longrightarrow> direction_ok w'"
  shows "inv (run_cont cfg c w')"
proof (cases "\<exists>g. c = CloseSettle (Some g)")
  case True
  with assms(1) show ?thesis by (auto simp: inv_goToFloor_resume)
next
  case False
  with assms have w': "inv w'" by (simp add: inv_def)
  show ?thesis
  proof (cases c)
    case OpenSettle
    with w' show ?thesis by (simp add: inv_start)
  next
    case (CloseSettle k)
    with False w' show ?thesis by (cases k) simp_all
  next
    case (TravelTick i n s temp)
    with w' show ?thesis by (simp add: inv_travel_tick)
  next
    case AutoClose
    with w' show ?thesis by (simp add: inv_closeDoors)
  qed
qed

lemma inv_fire: 
  assumes "inv w" 
  shows "inv (fire cfg w)"
proof (cases "earliest (timers w)")
  case None
  with assms show ?thesis by (simp add: fire_def)
next
  case (Some t)
  from assms have ok: "timers_ok w" by (simp add: inv_def)
  have 1: "timers_ok (pop_timer t w)" using ok Some by (rule timers_ok_pop_timer)
  have 2: "(\<forall>g. tcont t \<noteq> CloseSettle (Some g)) \<longrightarrow> direction_ok (pop_timer t w)"
    using assms by (auto simp: inv_def direction_ok_def closing_pending_pop_timer)
  from 1 2 have "inv (run_cont cfg (tcont t) (pop_timer t w))" by (rule inv_run_cont)
  with Some show ?thesis by (simp add: fire_def)
qed

lemma inv_wait: "inv w \<Longrightarrow> list_all (\<lambda>t. now w + d \<le> due t) (timers w) \<Longrightarrow> inv (w\<lparr>now := now w + d\<rparr>)"
  by (simp add: inv_def timers_ok_def direction_ok_def closing_pending_def list_all_iff)

lemma inv_init: "inv (init cfg)"
  by (simp add: init_def inv_def timers_ok_def direction_ok_def state0_def openDoors_def
      setTimeout_def refreshButtons_def updateHeader_def tid_def due_def tcont_def)

lemma inv_step: "inv w \<Longrightarrow> step cfg e w = Some w' \<Longrightarrow> inv w'"
  by (cases e)
    (auto simp: step_def exec_def enabled_def inv_goToFloor inv_openDoors inv_closeDoors
      inv_fire inv_wait split: if_splits)

lemma reachable_inv: "reachable cfg w \<Longrightarrow> inv w"
  by (induction rule: reachable.induct) (auto intro: inv_init inv_step)


section \<open>Concrete runs\<close>

lemmas eval_defs = default_cfg_def init_def state0_def run.simps step_def enabled_def exec_def
  floorBtn_enabled_def fire_def pop_timer_def goToFloor_def goToFloor_resume_def
  travel_tick_def travel_loop_def arrive_def openDoors_def closeDoors_def
  startDoorAutoCloseTimer_def clearDoorTimer_def clearTimeout_def setTimeout_def
  refreshButtons_def updateHeader_def tid_def due_def tcont_def SPEED_PER_FLOOR_def
  doorAutoCloseMs_def Let_def

lemma run_reachable:
  "reachable cfg w \<Longrightarrow> run cfg es w = Some w' \<Longrightarrow> reachable cfg w'"
proof (induction es arbitrary: w)
  case Nil
  then show ?case by simp
next
  case (Cons e es)
  from Cons.prems(2) obtain w1 where w1: "step cfg e w = Some w1" "run cfg es w1 = Some w'"
    by (auto split: option.splits)
  from Cons.prems(1) w1(1) have "reachable cfg w1" by (rule reach_step)
  then show ?case using w1(2) by (rule Cons.IH)
qed

lemma run_from_init: "run cfg es (init cfg) = Some w \<Longrightarrow> reachable cfg w"
  using reach_init by (rule run_reachable)

lemma ex_idle_closed_run:
  "run default_cfg [Fire, Fire, Fire] (init default_cfg) = Some ex_idle_closed"
  by (simp add: eval_defs ex_idle_closed_def)

lemma ex_travelling_run:
  "run default_cfg [Fire, Fire, Fire, FloorBtn 3] (init default_cfg) = Some ex_travelling"
  by (simp add: eval_defs ex_travelling_def)

lemma ex_stray_run:
  "run default_cfg [CloseBtn, Fire] (init default_cfg) = Some ex_stray"
  by (simp add: eval_defs ex_stray_def)

section \<open>The door routines\<close>

text \<open>
  Claim C10. Both door routines are pure door operations on the car state: for every
  starting state, \<^verbatim>\<open>openDoors()\<close> and \<^verbatim>\<open>closeDoors()\<close>, and their tails after the
  sleep, leave \<^verbatim>\<open>current\<close>, \<^verbatim>\<open>selected\<close>, \<^verbatim>\<open>moving\<close> and \<^verbatim>\<open>direction\<close>
  unchanged; of the fields of \<^verbatim>\<open>state\<close> they only ever write \<^verbatim>\<open>doors\<close>.
\<close>

theorem door_routines_frame:
  "current (openDoors cfg w) = current w \<and> selected (openDoors cfg w) = selected w
   \<and> moving (openDoors cfg w) = moving w \<and> direction (openDoors cfg w) = direction w
   \<and> current (run_cont cfg OpenSettle w) = current w
   \<and> selected (run_cont cfg OpenSettle w) = selected w
   \<and> moving (run_cont cfg OpenSettle w) = moving w
   \<and> direction (run_cont cfg OpenSettle w) = direction w
   \<and> doors (run_cont cfg OpenSettle w) = doors w
   \<and> current (snd (closeDoors cfg k w)) = current w
   \<and> selected (snd (closeDoors cfg k w)) = selected w
   \<and> moving (snd (closeDoors cfg k w)) = moving w
   \<and> direction (snd (closeDoors cfg k w)) = direction w
   \<and> run_cont cfg (CloseSettle None) w = w"
  by simp

lemma clearDoorTimer_eq:
  assumes "timers_ok w"
  shows "clearDoorTimer w =
         w\<lparr>timers := filter (\<lambda>t. tcont t \<noteq> AutoClose) (timers w), doorTimer := None\<rparr>"
proof -
  have "clearDoorTimer w =
        w\<lparr>timers := timers (clearDoorTimer w), doorTimer := doorTimer (clearDoorTimer w)\<rparr>"
    by (cases "doorTimer w") (simp_all add: clearDoorTimer_def clearTimeout_def)
  then show ?thesis
    by (simp only: clearDoorTimer_timers [OF assms] clearDoorTimer_none [OF assms])
qed

lemma no_AutoClose_after_closeDoors:
  assumes "timers_ok w"
  shows "\<forall>t \<in> set (timers (snd (closeDoors cfg k w))). tcont t \<noteq> AutoClose"
  using assms
  by (auto simp: closeDoors_def Let_def clearDoorTimer_timers setTimeout_def tcont_def)

lemma closeDoors_settled:
  assumes "doorTimer w = None" "doors w = DoorClosed" "refreshButtons w = w"
  shows "closeDoors cfg k w = (True, w)"
proof -
  from assms(1) have "clearDoorTimer w = w" by (simp add: clearDoorTimer_def)
  with assms(2) have "closeDoors cfg k w = (True, refreshButtons w)"
    by (simp add: closeDoors_def)
  then show ?thesis by (simp only: assms(3))
qed

lemma closeDoors_twice:
  assumes "timers_ok w"
  shows "closeDoors cfg k' (snd (closeDoors cfg k w)) = (True, snd (closeDoors cfg k w))"
proof (rule closeDoors_settled)
  show "doorTimer (snd (closeDoors cfg k w)) = None"
    using clearDoorTimer_none [OF assms] by (simp add: closeDoors_def Let_def)
  show "doors (snd (closeDoors cfg k w)) = DoorClosed" by simp
  show "refreshButtons (snd (closeDoors cfg k w)) = snd (closeDoors cfg k w)"
    by (simp add: closeDoors_def Let_def refreshButtons_def setTimeout_def)
qed

text \<open>
  Claim C8. \<^verbatim>\<open>closeDoors()\<close> is idempotent. In every reachable state it leaves no
  auto-close timer pending and \<^verbatim>\<open>doorTimer\<close> null, whatever the doors are; when the
  doors are closed already it returns without suspending and changes nothing but that
  timer (and the buttons it refreshes): \<^verbatim>\<open>current\<close>, \<^verbatim>\<open>selected\<close>, \<^verbatim>\<open>moving\<close>,
  \<^verbatim>\<open>direction\<close> and \<^verbatim>\<open>doors\<close> stay as they were; and a second call right after a
  first one changes nothing at all.
\<close>

theorem closeDoors_idempotent:
  assumes "reachable cfg w"
  shows "(\<forall>t \<in> set (timers (snd (closeDoors cfg k w))). tcont t \<noteq> AutoClose)
         \<and> doorTimer (snd (closeDoors cfg k w)) = None
         \<and> (doors w = DoorClosed \<longrightarrow>
              closeDoors cfg k w =
                (True, refreshButtons
                   (w\<lparr>timers := filter (\<lambda>t. tcont t \<noteq> AutoClose) (timers w),
                      doorTimer := None\<rparr>))
              \<and> current (snd (closeDoors cfg k w)) = current w
              \<and> selected (snd (closeDoors cfg k w)) = selected w
              \<and> moving (snd (closeDoors cfg k w)) = moving w
              \<and> direction (snd (closeDoors cfg k w)) = direction w
              \<and> doors (snd (closeDoors cfg k w)) = doors w)
         \<and> closeDoors cfg k' (snd (closeDoors cfg k w)) = (True, snd (closeDoors cfg k w))"
proof -
  from assms have ok: "timers_ok w" using reachable_inv by (simp add: inv_def)
  have 1: "\<forall>t \<in> set (timers (snd (closeDoors cfg k w))). tcont t \<noteq> AutoClose"
    using ok by (rule no_AutoClose_after_closeDoors)
  have 2: "doorTimer (snd (closeDoors cfg k w)) = None"
    using clearDoorTimer_none [OF ok] by (simp add: closeDoors_def Let_def)
  have 3: "closeDoors cfg k w =
             (True, refreshButtons
                (w\<lparr>timers := filter (\<lambda>t. tcont t \<noteq> AutoClose) (timers w),
                   doorTimer := None\<rparr>))" if "doors w = DoorClosed"
    using that clearDoorTimer_eq [OF ok] by (simp add: closeDoors_def Let_def)
  have 4: "closeDoors cfg k' (snd (closeDoors cfg k w)) = (True, snd (closeDoors cfg k w))"
    using ok by (rule closeDoors_twice)
  have 5: "current (snd (closeDoors cfg k w)) = current w
           \<and> selected (snd (closeDoors cfg k w)) = selected w
           \<and> moving (snd (closeDoors cfg k w)) = moving w
           \<and> direction (snd (closeDoors cfg k w)) = direction w"
    by simp
  have 6: "doors (snd (closeDoors cfg k w)) = doors w" if "doors w = DoorClosed"
    using that by simp
  show ?thesis
    using 1 2 3 4 5 6 by blast
qed

text \<open>
  The theorem at a reachable state with closed doors and a stray auto-close timer: the
  page is loaded, Close is clicked while the doors still open, and the opening settles.
\<close>

theorem closeDoors_idempotent_witness:
  "reachable default_cfg ex_stray \<and> doors ex_stray = DoorClosed
   \<and> timers ex_stray = [(2, 700, CloseSettle None), (3, 5700, AutoClose)]
   \<and> closeDoors default_cfg None ex_stray =
       (True, ex_stray\<lparr>timers := [(2, 700, CloseSettle None)], doorTimer := None\<rparr>)
   \<and> closeDoors default_cfg None (snd (closeDoors default_cfg None ex_stray)) =
       (True, snd (closeDoors default_cfg None ex_stray))"
proof -
  have r: "reachable default_cfg ex_stray"
    using ex_stray_run by (rule run_from_init)
  have d: "doors ex_stray = DoorClosed"
    and t: "timers ex_stray = [(2, 700, CloseSettle None), (3, 5700, AutoClose)]"
    by (simp_all add: ex_stray_def)
  have f: "filter (\<lambda>t. tcont t \<noteq> AutoClose) (timers ex_stray) = [(2, 700, CloseSettle None)]"
    by (simp add: t tcont_def)
  have b: "refreshButtons (ex_stray\<lparr>timers := [(2, 700, CloseSettle None)], doorTimer := None\<rparr>)
           = ex_stray\<lparr>timers := [(2, 700, CloseSettle None)], doorTimer := None\<rparr>"
    by (simp add: ex_stray_def refreshButtons_def)
  from closeDoors_idempotent [OF r, of None None] d
  have "closeDoors default_cfg None ex_stray =
          (True, refreshButtons
             (ex_stray\<lparr>timers := filter (\<lambda>t. tcont t \<noteq> AutoClose) (timers ex_stray),
                doorTimer := None\<rparr>))"
    and i: "closeDoors default_cfg None (snd (closeDoors default_cfg None ex_stray)) =
            (True, snd (closeDoors default_cfg None ex_stray))"
    by blast+
  then have e: "closeDoors default_cfg None ex_stray =
       (True, ex_stray\<lparr>timers := [(2, 700, CloseSettle None)], doorTimer := None\<rparr>)"
    by (simp only: f b)
  from r d t e i show ?thesis by blast
qed

section \<open>Requests while the car travels\<close>

text \<open>
  Claim C4. While \<^verbatim>\<open>state.moving\<close> is true, \<^verbatim>\<open>goToFloor(target)\<close> changes neither
  \<^verbatim>\<open>current\<close> nor \<^verbatim>\<open>direction\<close> and schedules nothing, so no second travel
  sequence begins; its only effect is that \<^verbatim>\<open>selected\<close> becomes the target, and the
  buttons are refreshed, within the call itself, before any timer can fire.
\<close>

theorem request_while_travelling:
  assumes "moving w"
  shows "goToFloor cfg target w = refreshButtons (w\<lparr>selected := target\<rparr>)
         \<and> selected (goToFloor cfg target w) = target
         \<and> current (goToFloor cfg target w) = current w
         \<and> direction (goToFloor cfg target w) = direction w
         \<and> moving (goToFloor cfg target w) = moving w
         \<and> doors (goToFloor cfg target w) = doors w
         \<and> timers (goToFloor cfg target w) = timers w
         \<and> doorTimer (goToFloor cfg target w) = doorTimer w
         \<and> now (goToFloor cfg target w) = now w
         \<and> header (goToFloor cfg target w) = header w"
proof -
  from assms have "goToFloor cfg target w = refreshButtons (w\<lparr>selected := target\<rparr>)"
    by (simp add: goToFloor_def Let_def)
  then show ?thesis by simp
qed

text \<open>The theorem at a state in which the car travels from floor 0 to floor 3.\<close>

theorem request_while_travelling_witness:
  "moving ex_travelling
   \<and> goToFloor default_cfg 1 ex_travelling = refreshButtons (ex_travelling\<lparr>selected := 1\<rparr>)
   \<and> selected (goToFloor default_cfg 1 ex_travelling) = 1
   \<and> current (goToFloor default_cfg 1 ex_travelling) = 0
   \<and> direction (goToFloor default_cfg 1 ex_travelling) = 1
   \<and> timers (goToFloor default_cfg 1 ex_travelling) = [(4, 7300, TravelTick 0 3 1 0)]"
proof -
  have m: "moving ex_travelling" by (simp add: ex_travelling_def)
  from request_while_travelling [OF m, of default_cfg 1] m show ?thesis
    by (simp add: ex_travelling_def)
qed


section \<open>Requesting the floor the car is at\<close>

text \<open>
  Claim C3 says that \<^verbatim>\<open>goToFloor(current)\<close> on an idle car still runs the arrival
  tail and opens the doors. Line 279 returns first. In the state reached when the
  doors have closed by themselves after the page load, the request leaves the doors
  closed and schedules nothing.
\<close>

theorem same_floor_request_counterexample:
  "run default_cfg [Fire, Fire, Fire] (init default_cfg) = Some ex_idle_closed
   \<and> \<not> moving ex_idle_closed \<and> current ex_idle_closed = 0
   \<and> doors ex_idle_closed = DoorClosed
   \<and> doors (goToFloor default_cfg 0 ex_idle_closed) = DoorClosed
   \<and> timers (goToFloor default_cfg 0 ex_idle_closed) = []
   \<and> goToFloor default_cfg 0 ex_idle_closed \<noteq> openDoors default_cfg ex_idle_closed"
  using ex_idle_closed_run
  by (simp add: ex_idle_closed_def goToFloor_def openDoors_def refreshButtons_def
      setTimeout_def Let_def)

text \<open>
  Claim C3 as amended. \<^verbatim>\<open>goToFloor(target)\<close> with \<^verbatim>\<open>target\<close> equal to
  \<^verbatim>\<open>state.current\<close> begins no travel and does not run the arrival tail: it returns
  right after setting \<^verbatim>\<open>selected\<close> and refreshing the buttons, so \<^verbatim>\<open>direction\<close>,
  \<^verbatim>\<open>doors\<close>, \<^verbatim>\<open>moving\<close> and the timers are as before. The tail of lines 287 to 292
  (direction idle, header update, \<^verbatim>\<open>openDoors\<close>) runs only when a travel sequence
  resumes from its \<^verbatim>\<open>await closeDoors()\<close> and finds the car at its target.
\<close>

theorem same_floor_request_returns_early:
  "goToFloor cfg (current w) w = refreshButtons (w\<lparr>selected := current w\<rparr>)
   \<and> direction (goToFloor cfg (current w) w) = direction w
   \<and> doors (goToFloor cfg (current w) w) = doors w
   \<and> moving (goToFloor cfg (current w) w) = moving w
   \<and> timers (goToFloor cfg (current w) w) = timers w
   \<and> doorTimer (goToFloor cfg (current w) w) = doorTimer w
   \<and> run_cont cfg (CloseSettle (Some (current w))) w =
       openDoors cfg (updateHeader (w\<lparr>direction := 0\<rparr>))"
proof -
  have "goToFloor cfg (current w) w = refreshButtons (w\<lparr>selected := current w\<rparr>)"
    by (simp add: goToFloor_def Let_def)
  then show ?thesis by (simp add: goToFloor_resume_def)
qed

section \<open>Direction and motion\<close>

lemma ex_closing_run:
  "run default_cfg [Fire, Wait 300, FloorBtn 3] (init default_cfg) = Some ex_closing"
  by (simp add: eval_defs ex_closing_def)

text \<open>
  Claim C7 says that \<^verbatim>\<open>direction\<close> is idle whenever \<^verbatim>\<open>moving\<close> is false. Line 281
  sets the direction before \<^verbatim>\<open>await closeDoors()\<close>, line 295 sets \<^verbatim>\<open>moving\<close> after
  it. With the doors open, a click on floor 3 leaves the page, for the time the doors
  take to close, with direction up and the car not moving.
\<close>

theorem direction_before_motion_counterexample:
  "run default_cfg [Fire, Wait 300, FloorBtn 3] (init default_cfg) = Some ex_closing
   \<and> reachable default_cfg ex_closing
   \<and> \<not> moving ex_closing \<and> direction ex_closing = 1"
proof -
  have "reachable default_cfg ex_closing"
    using ex_closing_run by (rule run_from_init)
  with ex_closing_run show ?thesis by (simp add: ex_closing_def)
qed

text \<open>
  Claim C7 as amended. In every reachable state in which \<^verbatim>\<open>moving\<close> is false,
  \<^verbatim>\<open>direction\<close> is idle unless some \<^verbatim>\<open>goToFloor\<close> is suspended in its
  \<^verbatim>\<open>await closeDoors()\<close>: a direction is shown without motion only while the doors
  close for a travel sequence.
\<close>

theorem direction_idle_unless_closing:
  assumes "reachable cfg w" and "\<not> moving w" and "direction w \<noteq> 0"
  shows "\<exists>t \<in> set (timers w). \<exists>target. tcont t = CloseSettle (Some target)"
proof -
  from assms(1) have "direction_ok w" using reachable_inv by (simp add: inv_def)
  with assms(2,3) show ?thesis by (simp add: direction_ok_def closing_pending_def)
qed

text \<open>The theorem at the state of the counterexample.\<close>

theorem direction_idle_unless_closing_witness:
  "reachable default_cfg ex_closing \<and> \<not> moving ex_closing \<and> direction ex_closing \<noteq> 0
   \<and> (3, 1700, CloseSettle (Some 3)) \<in> set (timers ex_closing)
   \<and> (\<exists>t \<in> set (timers ex_closing). \<exists>target. tcont t = CloseSettle (Some target))"
proof -
  have r: "reachable default_cfg ex_closing"
    using ex_closing_run by (rule run_from_init)
  have m: "\<not> moving ex_closing" and d: "direction ex_closing \<noteq> 0"
    and t: "(3, 1700, CloseSettle (Some 3)) \<in> set (timers ex_closing)"
    by (simp_all add: ex_closing_def)
  from direction_idle_unless_closing [OF r m d] r m d t show ?thesis by blast
qed

section \<open>Targets outside the building\<close>




section \<open>The dwell timer\<close>

lemma start_timer_armed:
  "doorTimer (startDoorAutoCloseTimer w) = Some (nextId w)
   \<and> (nextId w, now w + doorAutoCloseMs, AutoClose) \<in> set (timers (startDoorAutoCloseTimer w))"
  by (simp add: startDoorAutoCloseTimer_def Let_def setTimeout_def)

lemma reachable_fire: "reachable cfg w \<Longrightarrow> reachable cfg (fire cfg w)"
proof (cases "timers w = []")
  case True
  assume "reachable cfg w"
  with True show ?thesis by (simp add: fire_def)
next
  case False
  assume r: "reachable cfg w"
  from False have "step cfg Fire w = Some (fire cfg w)"
    by (simp add: step_def enabled_def exec_def)
  with r show ?thesis by (rule reach_step)
qed

lemma AutoClose_unique:
  assumes "timers_ok w" "u \<in> set (timers w)" "tcont u = AutoClose"
    "v \<in> set (timers w)" "tcont v = AutoClose"
  shows "tid u = tid v"
  using assms by (auto simp: timers_ok_def)

text \<open>
  What holds of the dwell timer in every reachable state. Let the next timer be the end
  of the sleep of \<^verbatim>\<open>openDoors\<close>, due at \<open>due t\<close>: firing it arms the auto-close
  timer for \<open>due t + doorAutoCloseMs\<close> under the handle kept in \<^verbatim>\<open>doorTimer\<close>. If
  that timer is the next to fire and the car is not moving, firing it happens at
  exactly that time and closes the doors. And when \<^verbatim>\<open>closeDoors()\<close> returns, called
  by the Close button (\<open>k = None\<close>) or by a travel sequence (\<open>k = Some target\<close>),
  no auto-close timer is pending and \<^verbatim>\<open>doorTimer\<close> is null. This says nothing of
  timers armed later; see the run that follows.
\<close>

theorem dwell_timer:
  assumes "reachable cfg w" and "earliest (timers w) = Some t" and "tcont t = OpenSettle"
    and "reachable cfg w'"
  shows "(\<exists>h. doorTimer (fire cfg w) = Some h
            \<and> (h, due t + doorAutoCloseMs, AutoClose) \<in> set (timers (fire cfg w)))
         \<and> (\<forall>u. earliest (timers (fire cfg w)) = Some u \<and> tcont u = AutoClose
                  \<and> \<not> moving (fire cfg w) \<longrightarrow>
                now (fire cfg (fire cfg w)) = due t + doorAutoCloseMs
                \<and> doors (fire cfg (fire cfg w)) = DoorClosed)
         \<and> (\<forall>u \<in> set (timers (snd (closeDoors cfg k w'))). tcont u \<noteq> AutoClose)
         \<and> doorTimer (snd (closeDoors cfg k w')) = None"
proof -
  let ?p = "pop_timer t w"
  let ?w1 = "fire cfg w"
  from assms(1) have ok: "timers_ok w" using reachable_inv by (simp add: inv_def)
  have okp: "timers_ok ?p" and nowp: "now ?p = due t"
    using ok assms(2) by (rule timers_ok_pop_timer)+
  have w1: "?w1 = startDoorAutoCloseTimer ?p"
    using assms(2,3) by (simp add: fire_def)
  have armed: "doorTimer ?w1 = Some (nextId ?p)"
    "(nextId ?p, due t + doorAutoCloseMs, AutoClose) \<in> set (timers ?w1)"
    using start_timer_armed [of ?p] by (simp_all add: w1 nowp)
  have ok1: "timers_ok ?w1"
    using reachable_fire [OF assms(1)] reachable_inv by (simp add: inv_def)
  have fired: "now (fire cfg ?w1) = due t + doorAutoCloseMs \<and> doors (fire cfg ?w1) = DoorClosed"
    if u: "earliest (timers ?w1) = Some u" "tcont u = AutoClose" and m: "\<not> moving ?w1" for u
  proof -
    from u(1) have uin: "u \<in> set (timers ?w1)" using earliest_Some by blast
    have "tid u = nextId ?p"
      using ok1 uin u(2) armed(1) by (simp add: timers_ok_def)
    moreover have "u \<in> set (timers ?p) \<longrightarrow> tid u < nextId ?p"
      using okp by (simp add: timers_ok_def)
    ultimately have "u \<notin> set (timers ?p)" by auto
    then have "u \<notin> set (timers (clearDoorTimer ?p))"
      using okp by (simp add: clearDoorTimer_timers)
    with uin have "u = (nextId ?p, due t + doorAutoCloseMs, AutoClose)"
      by (simp add: w1 startDoorAutoCloseTimer_def Let_def setTimeout_def nowp)
    then have du: "due u = due t + doorAutoCloseMs" by (simp add: due_def)
    have "now (pop_timer u ?w1) = due u"
      using ok1 u(1) by (rule timers_ok_pop_timer)
    moreover have "fire cfg ?w1 = snd (closeDoors cfg None (pop_timer u ?w1))"
      using u m by (simp add: fire_def [of cfg ?w1])
    ultimately show ?thesis using du by simp
  qed
  from assms(4) have ok': "timers_ok w'" using reachable_inv by (simp add: inv_def)
  have cancelled: "\<forall>u \<in> set (timers (snd (closeDoors cfg k w'))). tcont u \<noteq> AutoClose"
    using ok' by (rule no_AutoClose_after_closeDoors)
  have handle: "doorTimer (snd (closeDoors cfg k w')) = None"
    using clearDoorTimer_none [OF ok'] by (simp add: closeDoors_def Let_def)
  from armed fired cancelled handle show ?thesis by blast
qed

text \<open>
  At the page load: the doors settle at 700 ms, the timer is armed for 5700 ms and
  closes the doors then; a Close click in between removes it.
\<close>

theorem dwell_timer_witness:
  "reachable default_cfg (init default_cfg)
   \<and> earliest (timers (init default_cfg)) = Some (1, 700, OpenSettle)
   \<and> doorTimer (fire default_cfg (init default_cfg)) = Some 2
   \<and> timers (fire default_cfg (init default_cfg)) = [(2, 5700, AutoClose)]
   \<and> \<not> moving (fire default_cfg (init default_cfg))
   \<and> now (fire default_cfg (fire default_cfg (init default_cfg))) = 5700
   \<and> doors (fire default_cfg (fire default_cfg (init default_cfg))) = DoorClosed
   \<and> timers (snd (closeDoors default_cfg None (fire default_cfg (init default_cfg)))) =
       [(3, 1400, CloseSettle None)]"
proof -
  have e: "earliest (timers (init default_cfg)) = Some (1, 700, OpenSettle)"
    by (simp add: eval_defs)
  have c: "tcont (1, 700, OpenSettle) = OpenSettle" by (simp add: tcont_def)
  have r1: "reachable default_cfg (fire default_cfg (init default_cfg))"
    using reach_init by (rule reachable_fire)
  have f: "doorTimer (fire default_cfg (init default_cfg)) = Some 2"
    "timers (fire default_cfg (init default_cfg)) = [(2, 5700, AutoClose)]"
    "\<not> moving (fire default_cfg (init default_cfg))"
    "timers (snd (closeDoors default_cfg None (fire default_cfg (init default_cfg)))) =
       [(3, 1400, CloseSettle None)]"
    by (simp_all add: eval_defs)
  have e1: "earliest (timers (fire default_cfg (init default_cfg))) = Some (2, 5700, AutoClose)"
    "tcont (2, 5700, AutoClose) = AutoClose" "due (1, 700, OpenSettle) = 700"
    by (simp_all add: f(2) tcont_def due_def)
  from dwell_timer [OF reach_init e c r1, of None] e1 f(3)
  have "now (fire default_cfg (fire default_cfg (init default_cfg))) = 5700
        \<and> doors (fire default_cfg (fire default_cfg (init default_cfg))) = DoorClosed"
    by (simp add: doorAutoCloseMs_def)
  with reach_init e f show ?thesis by blast
qed

text \<open>
  Claim C9: once the doors have finished opening, a \<^verbatim>\<open>closeDoors()\<close> before the
  dwell timer expires cancels it, so that no redundant close fires afterwards. The tail
  of \<^verbatim>\<open>openDoors\<close> (line 249) arms the timer after its sleep without looking at
  \<^verbatim>\<open>state.doors\<close> again. The run, from the page load: Close is clicked at once and
  Open at 100 ms, so that two calls of \<^verbatim>\<open>openDoors\<close> are asleep; at 700 ms the first
  settles and arms the timer for 5700 ms; Close is clicked and cancels it; at 800 ms the
  second call settles and arms the timer for 5800 ms although the doors are closed. With
  no further action that timer fires at 5800 ms and runs \<^verbatim>\<open>closeDoors\<close> on closed
  doors; and if Open is clicked at 5700 ms, it closes the doors 100 ms after they
  opened.
\<close>

theorem close_fires_after_cancelled_dwell_timer:
  "run default_cfg [CloseBtn, Wait 100, OpenBtn, Fire, Fire] (init default_cfg) =
     Some \<lparr>current = 0, direction = 0, moving = False, doors = DoorOpen,
       selected = 0, doorTimer = Some 4,
       timers = [(3, 800, OpenSettle), (4, 5700, AutoClose)], nextId = 5,
       now = 700, btn_moving = False, btn_current = 0, btn_active = 0,
       openBtn_disabled = True, closeBtn_disabled = False, header = [(0, 0, 0)]\<rparr>
   \<and> run default_cfg [CloseBtn, Wait 100, OpenBtn, Fire, Fire, CloseBtn] (init default_cfg) =
     Some \<lparr>current = 0, direction = 0, moving = False, doors = DoorClosed,
       selected = 0, doorTimer = None,
       timers = [(3, 800, OpenSettle), (5, 1400, CloseSettle None)],
       nextId = 6, now = 700, btn_moving = False, btn_current = 0,
       btn_active = 0, openBtn_disabled = False, closeBtn_disabled = True,
       header = [(0, 0, 0)]\<rparr>
   \<and> run default_cfg [CloseBtn, Wait 100, OpenBtn, Fire, Fire, CloseBtn, Fire, Fire]
       (init default_cfg) =
     Some \<lparr>current = 0, direction = 0, moving = False, doors = DoorClosed,
       selected = 0, doorTimer = Some 6, timers = [(6, 5800, AutoClose)],
       nextId = 7, now = 1400, btn_moving = False, btn_current = 0,
       btn_active = 0, openBtn_disabled = False, closeBtn_disabled = True,
       header = [(0, 0, 0)]\<rparr>
   \<and> run default_cfg [CloseBtn, Wait 100, OpenBtn, Fire, Fire, CloseBtn, Fire, Fire, Fire]
       (init default_cfg) =
     Some \<lparr>current = 0, direction = 0, moving = False, doors = DoorClosed,
       selected = 0, doorTimer = None, timers = [], nextId = 7, now = 5800,
       btn_moving = False, btn_current = 0, btn_active = 0,
       openBtn_disabled = False, closeBtn_disabled = True, header = [(0, 0, 0)]\<rparr>
   \<and> run default_cfg
       [CloseBtn, Wait 100, OpenBtn, Fire, Fire, CloseBtn, Fire, Fire, Wait 4300, OpenBtn]
       (init default_cfg) =
     Some \<lparr>current = 0, direction = 0, moving = False, doors = DoorOpen,
       selected = 0, doorTimer = Some 6,
       timers = [(6, 5800, AutoClose), (7, 6400, OpenSettle)], nextId = 8,
       now = 5700, btn_moving = False, btn_current = 0, btn_active = 0,
       openBtn_disabled = True, closeBtn_disabled = False, header = [(0, 0, 0)]\<rparr>
   \<and> run default_cfg
       [CloseBtn, Wait 100, OpenBtn, Fire, Fire, CloseBtn, Fire, Fire, Wait 4300, OpenBtn, Fire]
       (init default_cfg) =
     Some \<lparr>current = 0, direction = 0, moving = False, doors = DoorClosed,
       selected = 0, doorTimer = None,
       timers = [(7, 6400, OpenSettle), (8, 6500, CloseSettle None)],
       nextId = 9, now = 5800, btn_moving = False, btn_current = 0,
       btn_active = 0, openBtn_disabled = False, closeBtn_disabled = True,
       header = [(0, 0, 0)]\<rparr>"
  by (simp add: eval_defs)

section \<open>A travel that nothing interleaves\<close>

text \<open>
  When no other travel sequence is in flight, a travel started by \<^verbatim>\<open>goToFloor\<close> runs
  as its comment says. The door timers that fire in between change neither the car nor
  the header, and only finitely many of them fire before the next tick.
\<close>

lemma travel_timers_frame [simp]:
  "travel_timers (refreshButtons w) = travel_timers w"
  "travel_timers (updateHeader w) = travel_timers w"
  "travel_timers (w\<lparr>doors := d\<rparr>) = travel_timers w"
  "travel_timers (w\<lparr>moving := m\<rparr>) = travel_timers w"
  "travel_timers (w\<lparr>direction := r\<rparr>) = travel_timers w"
  "travel_timers (w\<lparr>current := c\<rparr>) = travel_timers w"
  "travel_timers (w\<lparr>selected := x\<rparr>) = travel_timers w"
  "travel_timers (w\<lparr>doorTimer := h\<rparr>) = travel_timers w"
  by (simp_all add: travel_timers_def refreshButtons_def updateHeader_def)

lemma travel_timers_setTimeout:
  "travel_timers (setTimeout ms c w) =
     travel_timers w @ (if is_travel c then [(nextId w, now w + ms, c)] else [])"
  by (simp add: travel_timers_def setTimeout_def tcont_def)

lemma travel_timers_clearDoorTimer:
  "timers_ok w \<Longrightarrow> travel_timers (clearDoorTimer w) = travel_timers w"
  unfolding travel_timers_def
  by (simp add: clearDoorTimer_timers) (rule filter_cong, auto)

lemma travel_timers_start:
  "timers_ok w \<Longrightarrow> travel_timers (startDoorAutoCloseTimer w) = travel_timers w"
  by (simp add: startDoorAutoCloseTimer_def Let_def travel_timers_setTimeout
      travel_timers_clearDoorTimer)

lemma travel_timers_openDoors:
  "timers_ok w \<Longrightarrow> travel_timers (openDoors cfg w) = travel_timers w"
  by (simp add: openDoors_def travel_timers_setTimeout travel_timers_start)

lemma travel_timers_closeDoors:
  "timers_ok w \<Longrightarrow> travel_timers (snd (closeDoors cfg None w)) = travel_timers w"
  by (simp add: closeDoors_def Let_def travel_timers_setTimeout travel_timers_clearDoorTimer)

lemma travel_timers_pop_other:
  "\<not> is_travel (tcont t) \<Longrightarrow> travel_timers (pop_timer t w) = travel_timers w"
  by (simp add: travel_timers_def pop_timer_def filter_remove1 remove1_idem)

lemma travel_timers_pop_sole:
  assumes "travel_timers w = [t]" "t \<in> set (timers w)"
  shows "travel_timers (pop_timer t w) = []"
  using assms by (simp add: travel_timers_def pop_timer_def filter_remove1)

lemma door_work_frame [simp]:
  "door_work (refreshButtons w) = door_work w"
  "door_work (w\<lparr>doorTimer := h\<rparr>) = door_work w"
  by (simp_all add: door_work_def refreshButtons_def)

lemma door_work_pop:
  "t \<in> set (timers w) \<Longrightarrow> door_work w = door_weight (tcont t) + door_work (pop_timer t w)"
  by (simp add: door_work_def pop_timer_def sum_list_map_remove1)

lemma sum_list_filter_le: "sum_list (map f (filter P xs)) \<le> (sum_list (map f xs) :: nat)"
  by (induction xs) auto

lemma door_work_start:
  "timers_ok w \<Longrightarrow> door_work (startDoorAutoCloseTimer w) \<le> door_work w + 2"
  using sum_list_filter_le [of "\<lambda>t. door_weight (tcont t)" "\<lambda>t. tcont t \<noteq> AutoClose" "timers w"]
  by (simp add: startDoorAutoCloseTimer_def Let_def setTimeout_def door_work_def
      clearDoorTimer_timers tcont_def)

lemma header_start [simp]: "header (run_cont cfg OpenSettle w) = header w"
  by simp

lemma openDoors_doors [simp]: "doors (openDoors cfg w) = DoorOpen"
  by (simp add: openDoors_def)

lemma door_work_closeDoors:
  "timers_ok w \<Longrightarrow> door_work (snd (closeDoors cfg None w)) \<le> door_work w + 1"
  using sum_list_filter_le [of "\<lambda>t. door_weight (tcont t)" "\<lambda>t. tcont t \<noteq> AutoClose" "timers w"]
  by (simp add: closeDoors_def Let_def setTimeout_def door_work_def refreshButtons_def
      clearDoorTimer_timers tcont_def)

lemma fire_other:
  assumes ok: "timers_ok w"
    and e: "earliest (timers w) = Some t"
    and nt: "\<not> is_travel (tcont t)"
  shows "timers_ok (fire cfg w) \<and> same_car (fire cfg w) w
         \<and> door_work (fire cfg w) < door_work w"
proof -
  let ?p = "pop_timer t w"
  from e have tin: "t \<in> set (timers w)" using earliest_Some by blast
  have okp: "timers_ok ?p" using ok e by (rule timers_ok_pop_timer)
  have sp: "same_car ?p w"
    using nt by (simp add: same_car_def travel_timers_pop_other) (simp add: pop_timer_def)
  have dw: "door_work w = door_weight (tcont t) + door_work ?p"
    using tin by (rule door_work_pop)
  show ?thesis
  proof (cases "tcont t")
    case OpenSettle
    then have f: "fire cfg w = startDoorAutoCloseTimer ?p"
      using e by (simp add: fire_def)
    have "same_car (startDoorAutoCloseTimer ?p) w"
      using sp okp by (simp add: same_car_def travel_timers_start)
    moreover have "door_work (startDoorAutoCloseTimer ?p) < door_work w"
      using door_work_start [OF okp] dw OpenSettle by simp
    ultimately show ?thesis using okp by (simp add: f timers_ok_start)
  next
    case (CloseSettle k)
    with nt have k: "k = None" by (cases k) simp_all
    then have f: "fire cfg w = ?p" using e CloseSettle by (simp add: fire_def)
    from dw CloseSettle k have "door_work ?p < door_work w" by simp
    with sp okp show ?thesis by (simp add: f)
  next
    case (TravelTick a b c d)
    with nt show ?thesis by simp
  next
    case AutoClose
    show ?thesis
    proof (cases "moving w")
      case True
      then have f: "fire cfg w = ?p" using e AutoClose by (simp add: fire_def)
      from dw AutoClose have "door_work ?p < door_work w" by simp
      with sp okp show ?thesis by (simp add: f)
    next
      case False
      then have f: "fire cfg w = snd (closeDoors cfg None ?p)"
        using e AutoClose by (simp add: fire_def)
      have "same_car (snd (closeDoors cfg None ?p)) w"
        using sp okp by (simp add: same_car_def travel_timers_closeDoors)
      moreover have "door_work (snd (closeDoors cfg None ?p)) < door_work w"
        using door_work_closeDoors [OF okp, of cfg] dw AutoClose by simp
      ultimately show ?thesis using okp by (simp add: f timers_ok_closeDoors)
    qed
  qed
qed

lemma fire_tick:
  assumes tr: "travelling i n s c0 t0 w"
    and e: "earliest (timers w) = Some t"
    and it: "is_travel (tcont t)"
  shows "header (fire cfg w) =
           header w @ [(t0 + Suc i * SPEED_PER_FLOOR, c0 + int (Suc i) * s, s)]
         \<and> now (fire cfg w) = t0 + Suc i * SPEED_PER_FLOOR
         \<and> current (fire cfg w) = current w + s
         \<and> (if Suc i < n then travelling (Suc i) n s c0 t0 (fire cfg w)
             else \<not> moving (fire cfg w) \<and> direction (fire cfg w) = 0
                  \<and> selected (fire cfg w) = c0 + int n * s
                  \<and> current (fire cfg w) = c0 + int n * s
                  \<and> doors (fire cfg w) = DoorOpen)"
proof -
  let ?p = "pop_timer t w"
  let ?c = "c0 + int i * s"
  from tr obtain h where ok: "timers_ok w" and dir: "direction w = s"
    and cur: "current w = ?c" and lt: "i < n"
    and tt: "travel_timers w = [(h, t0 + Suc i * SPEED_PER_FLOOR, TravelTick i n s ?c)]"
    by (auto simp: travelling_def)
  from e have tin: "t \<in> set (timers w)" using earliest_Some by blast
  with it have "t \<in> set (travel_timers w)" by (simp add: travel_timers_def)
  with tt have t: "t = (h, t0 + Suc i * SPEED_PER_FLOOR, TravelTick i n s ?c)" by simp
  have okp: "timers_ok ?p" and nowp: "now ?p = due t"
    using ok e by (rule timers_ok_pop_timer)+
  have duet: "due t = t0 + Suc i * SPEED_PER_FLOOR" by (simp add: t due_def)
  have ttp: "travel_timers ?p = []"
    using tt tin unfolding t by (rule travel_timers_pop_sole)
  have hp: "header ?p = header w" by (simp add: pop_timer_def)
  let ?w1 = "updateHeader (?p\<lparr>current := ?c + s\<rparr>)"
  have f: "fire cfg w = travel_loop cfg (Suc i) n s (?c + s) ?w1"
    using e by (simp add: fire_def t tcont_def travel_tick_def)
  have alg: "?c + s = c0 + int (Suc i) * s" by (simp add: algebra_simps)
  have h1: "header ?w1 = header w @ [(t0 + Suc i * SPEED_PER_FLOOR, c0 + int (Suc i) * s, s)]"
    using hp nowp duet dir alg by (simp add: updateHeader_def)
  have ok1: "timers_ok ?w1" using okp by simp
  have mv1: "moving ?w1 = moving w" by simp
  show ?thesis
  proof (cases "Suc i < n")
    case True
    then have f2: "fire cfg w =
        setTimeout SPEED_PER_FLOOR (TravelTick (Suc i) n s (?c + s)) ?w1"
      by (simp add: f travel_loop_def)
    have "travelling (Suc i) n s c0 t0 (fire cfg w)"
      unfolding f2 travelling_def
      using ok1 tr True ttp nowp duet alg
      by (simp add: timers_ok_setTimeout travel_timers_setTimeout travelling_def)
    moreover have "header (fire cfg w) = header ?w1" by (simp add: f2)
    moreover have "now (fire cfg w) = due t" using nowp by (simp add: f2)
    moreover have "current (fire cfg w) = current w + s" using cur by (simp add: f2)
    ultimately show ?thesis using True h1 duet by simp
  next
    case False
    with lt have n: "n = Suc i" by simp
    from False have f2: "fire cfg w = arrive cfg ?w1" by (simp add: f travel_loop_def)
    have "header (fire cfg w) = header ?w1" by (simp add: f2 arrive_def)
    moreover have "now (fire cfg w) = due t" using nowp by (simp add: f2 arrive_def)
    moreover have "current (fire cfg w) = ?c + s" by (simp add: f2 arrive_def)
    moreover have "\<not> moving (fire cfg w)" "direction (fire cfg w) = 0"
      "selected (fire cfg w) = ?c + s" "doors (fire cfg w) = DoorOpen"
      by (simp_all add: f2 arrive_def)
    ultimately show ?thesis using False h1 duet cur alg n by simp
  qed
qed

lemma next_travel_timer:
  assumes "timers_ok w" "travel_timers w \<noteq> []"
  shows "\<exists>m t. timers_ok ((fire cfg ^^ m) w) \<and> same_car ((fire cfg ^^ m) w) w
               \<and> earliest (timers ((fire cfg ^^ m) w)) = Some t \<and> is_travel (tcont t)"
  using assms
proof (induction "door_work w" arbitrary: w rule: less_induct)
  case less
  from less.prems(2) have "timers w \<noteq> []" by (auto simp: travel_timers_def)
  then have "earliest (timers w) \<noteq> None" by (simp add: earliest_None)
  then obtain t where e: "earliest (timers w) = Some t" by blast
  show ?case
  proof (cases "is_travel (tcont t)")
    case True
    with less.prems e have
      "timers_ok ((fire cfg ^^ 0) w) \<and> same_car ((fire cfg ^^ 0) w) w
       \<and> earliest (timers ((fire cfg ^^ 0) w)) = Some t \<and> is_travel (tcont t)"
      by (simp add: same_car_def)
    then show ?thesis by blast
  next
    case False
    from fire_other [OF less.prems(1) e False, of cfg]
    have ok: "timers_ok (fire cfg w)" and sc: "same_car (fire cfg w) w"
      and d: "door_work (fire cfg w) < door_work w" by simp_all
    from sc less.prems(2) have "travel_timers (fire cfg w) \<noteq> []"
      by (simp add: same_car_def)
    from less.hyps [OF d ok this] obtain m u where
      "timers_ok ((fire cfg ^^ m) (fire cfg w))"
      "same_car ((fire cfg ^^ m) (fire cfg w)) (fire cfg w)"
      "earliest (timers ((fire cfg ^^ m) (fire cfg w))) = Some u" "is_travel (tcont u)"
      by blast
    with sc have
      "timers_ok ((fire cfg ^^ Suc m) w) \<and> same_car ((fire cfg ^^ Suc m) w) w
       \<and> earliest (timers ((fire cfg ^^ Suc m) w)) = Some u \<and> is_travel (tcont u)"
      by (simp add: funpow_swap1 same_car_def)
    then show ?thesis by blast
  qed
qed

lemma reach_tick:
  assumes "travelling i n s c0 t0 w"
  shows "\<exists>m t. travelling i n s c0 t0 ((fire cfg ^^ m) w)
               \<and> header ((fire cfg ^^ m) w) = header w
               \<and> earliest (timers ((fire cfg ^^ m) w)) = Some t \<and> is_travel (tcont t)"
proof -
  from assms have "timers_ok w" "travel_timers w \<noteq> []"
    by (auto simp: travelling_def)
  from next_travel_timer [OF this, of cfg] obtain m t where
    "timers_ok ((fire cfg ^^ m) w)" "same_car ((fire cfg ^^ m) w) w"
    "earliest (timers ((fire cfg ^^ m) w)) = Some t" "is_travel (tcont t)"
    by blast
  with assms have "travelling i n s c0 t0 ((fire cfg ^^ m) w)
               \<and> header ((fire cfg ^^ m) w) = header w
               \<and> earliest (timers ((fire cfg ^^ m) w)) = Some t \<and> is_travel (tcont t)"
    by (simp add: travelling_def same_car_def)
  then show ?thesis by blast
qed

lemma tick_log_step:
  assumes "i < n"
  shows "tick_log t0 c0 s i n =
    (t0 + Suc i * SPEED_PER_FLOOR, c0 + int (Suc i) * s, s) # tick_log t0 c0 s (Suc i) n"
proof -
  from assms have "[Suc i..<Suc n] = Suc i # [Suc (Suc i)..<Suc n]"
    by (subst upt_conv_Cons) simp_all
  then show ?thesis by (simp only: tick_log_def list.map)
qed

lemma travel_completes:
  assumes "travelling i n s c0 t0 w"
  shows "\<exists>m. \<not> moving ((fire cfg ^^ m) w) \<and> direction ((fire cfg ^^ m) w) = 0
             \<and> current ((fire cfg ^^ m) w) = c0 + int n * s
             \<and> selected ((fire cfg ^^ m) w) = c0 + int n * s
             \<and> doors ((fire cfg ^^ m) w) = DoorOpen
             \<and> now ((fire cfg ^^ m) w) = t0 + n * SPEED_PER_FLOOR
             \<and> header ((fire cfg ^^ m) w) = header w @ tick_log t0 c0 s i n"
  using assms
proof (induction "n - i" arbitrary: i w rule: less_induct)
  case less
  from less.prems have lt: "i < n" by (simp add: travelling_def)
  from reach_tick [OF less.prems, of cfg] obtain m1 t where
    tr1: "travelling i n s c0 t0 ((fire cfg ^^ m1) w)"
    and h1: "header ((fire cfg ^^ m1) w) = header w"
    and e1: "earliest (timers ((fire cfg ^^ m1) w)) = Some t" and it: "is_travel (tcont t)"
    by blast
  let ?w1 = "(fire cfg ^^ m1) w"
  let ?w2 = "(fire cfg ^^ Suc m1) w"
  have w2: "?w2 = fire cfg ?w1" by simp
  note tick = fire_tick [OF tr1 e1 it, of cfg, folded w2]
  from tick h1 have h2: "header ?w2 =
      header w @ [(t0 + Suc i * SPEED_PER_FLOOR, c0 + int (Suc i) * s, s)]"
    and n2: "now ?w2 = t0 + Suc i * SPEED_PER_FLOOR" by simp_all
  show ?case
  proof (cases "Suc i < n")
    case True
    with tick have tr2: "travelling (Suc i) n s c0 t0 ?w2" by simp
    from True have "n - Suc i < n - i" by simp
    from less.hyps [OF this tr2] obtain m2 where m2:
      "\<not> moving ((fire cfg ^^ m2) ?w2)" "direction ((fire cfg ^^ m2) ?w2) = 0"
      "current ((fire cfg ^^ m2) ?w2) = c0 + int n * s"
      "selected ((fire cfg ^^ m2) ?w2) = c0 + int n * s"
      "doors ((fire cfg ^^ m2) ?w2) = DoorOpen"
      "now ((fire cfg ^^ m2) ?w2) = t0 + n * SPEED_PER_FLOOR"
      "header ((fire cfg ^^ m2) ?w2) = header ?w2 @ tick_log t0 c0 s (Suc i) n"
      by blast
    have comp: "(fire cfg ^^ (m2 + Suc m1)) w = (fire cfg ^^ m2) ?w2"
      by (simp only: funpow_add o_apply)
    have "header ((fire cfg ^^ m2) ?w2) = header w @ tick_log t0 c0 s i n"
      using m2(7) h2 lt by (simp add: tick_log_step)
    with m2 show ?thesis unfolding comp [symmetric] by blast
  next
    case False
    with lt have n: "n = Suc i" by simp
    from tick False have "\<not> moving ?w2" "direction ?w2 = 0"
      "selected ?w2 = c0 + int n * s" "current ?w2 = c0 + int n * s" "doors ?w2 = DoorOpen"
      by simp_all
    moreover have "now ?w2 = t0 + n * SPEED_PER_FLOOR" using n2 n by simp
    moreover have "header ?w2 = header w @ tick_log t0 c0 s i n"
      using h2 n by (simp add: tick_log_def)
    ultimately show ?thesis by blast
  qed
qed

lemma resume_travelling:
  assumes "timers_ok w" "travel_timers w = []" "target \<noteq> current w"
    "direction w = (if target > current w then 1 else -1)"
  shows "travelling 0 (nat \<bar>target - current w\<bar>) (direction w) (current w) (now w)
           (goToFloor_resume cfg target w)"
  using assms
  by (simp add: goToFloor_resume_def Let_def travel_loop_def travelling_def
      timers_ok_setTimeout travel_timers_setTimeout)

lemma header_resume:
  "target \<noteq> current w \<Longrightarrow> header (goToFloor_resume cfg target w) = header w"
  by (simp add: goToFloor_resume_def Let_def travel_loop_def)

lemma steps_reach_target:
  "current w + int (nat \<bar>target - current w\<bar>) * (if target > current w then 1 else -1) = target"
  by simp

text \<open>
  From an idle state with no travel sequence in flight, \<^verbatim>\<open>goToFloor(target)\<close> followed
  by the timers alone arrives: the car is at the target, idle, the target selected, the
  doors open; the clock stands at the time of the request plus the door time (if the
  doors were open) plus \<open>steps * SPEED_PER_FLOOR\<close>; and since the request the header
  was redrawn once for the direction and then once per floor, \<open>SPEED_PER_FLOOR\<close> apart,
  each floor one further towards the target.
\<close>

lemma undisturbed_travel:
  assumes ok: "timers_ok w" and none: "travel_timers w = []" and idle: "\<not> moving w"
    and ne: "target \<noteq> current w"
  shows "\<exists>m. current ((fire cfg ^^ m) (goToFloor cfg target w)) = target
             \<and> selected ((fire cfg ^^ m) (goToFloor cfg target w)) = target
             \<and> \<not> moving ((fire cfg ^^ m) (goToFloor cfg target w))
             \<and> direction ((fire cfg ^^ m) (goToFloor cfg target w)) = 0
             \<and> doors ((fire cfg ^^ m) (goToFloor cfg target w)) = DoorOpen
             \<and> now ((fire cfg ^^ m) (goToFloor cfg target w)) =
                 now w + (if doors w = DoorOpen then doorTime cfg else 0)
                 + nat \<bar>target - current w\<bar> * SPEED_PER_FLOOR
             \<and> header ((fire cfg ^^ m) (goToFloor cfg target w)) =
                 header w @ (now w, current w, if target > current w then 1 else -1)
                 # tick_log (now w + (if doors w = DoorOpen then doorTime cfg else 0))
                     (current w) (if target > current w then 1 else -1) 0
                     (nat \<bar>target - current w\<bar>)"
proof -
  let ?s = "if target > current w then 1 else (-1::int)"
  let ?n = "nat \<bar>target - current w\<bar>"
  let ?w2 = "updateHeader ((refreshButtons (w\<lparr>selected := target\<rparr>))\<lparr>direction := ?s\<rparr>)"
  let ?g = "goToFloor cfg target w"
  have g: "?g = (let r = closeDoors cfg (Some target) ?w2
                 in if fst r then goToFloor_resume cfg target (snd r) else snd r)"
    using idle ne by (simp add: goToFloor_def Let_def)
  have ok2: "timers_ok ?w2" using ok by simp
  have tt2: "travel_timers ?w2 = []" using none by simp
  have h2: "header ?w2 = header w @ [(now w, current w, ?s)]"
    by (simp add: updateHeader_def refreshButtons_def)
  have tgt: "current w + int ?n * ?s = target" by (rule steps_reach_target)
  show ?thesis
  proof (cases "doors w")
    case DoorClosed
    let ?w3 = "refreshButtons (clearDoorTimer ?w2)"
    from DoorClosed have g3: "?g = goToFloor_resume cfg target ?w3"
      by (simp add: g closeDoors_def Let_def)
    have ok3: "timers_ok ?w3" using ok2 by (simp add: timers_ok_clearDoorTimer)
    have tt3: "travel_timers ?w3 = []"
      using ok2 tt2 by (simp add: travel_timers_clearDoorTimer)
    have c3: "current ?w3 = current w" and d3: "direction ?w3 = ?s" and n3: "now ?w3 = now w"
      by simp_all
    from ne have ne3: "target \<noteq> current ?w3" by simp
    have d3': "direction ?w3 = (if target > current ?w3 then 1 else -1)"
      by simp
    have tr: "travelling 0 ?n ?s (current w) (now w) ?g"
      using resume_travelling [OF ok3 tt3 ne3 d3', of cfg]
      by (simp only: c3 d3 n3 g3)
    have hg: "header ?g = header ?w2"
      using header_resume [OF ne3, of cfg] by (simp add: g3)
    from travel_completes [OF tr, of cfg] obtain m where
      "\<not> moving ((fire cfg ^^ m) ?g)" "direction ((fire cfg ^^ m) ?g) = 0"
      "current ((fire cfg ^^ m) ?g) = current w + int ?n * ?s"
      "selected ((fire cfg ^^ m) ?g) = current w + int ?n * ?s"
      "doors ((fire cfg ^^ m) ?g) = DoorOpen"
      "now ((fire cfg ^^ m) ?g) = now w + ?n * SPEED_PER_FLOOR"
      "header ((fire cfg ^^ m) ?g) = header ?g @ tick_log (now w) (current w) ?s 0 ?n"
      by blast
    with DoorClosed show ?thesis
      unfolding tgt hg h2 by (intro exI [of _ m]) simp
  next
    case DoorOpen
    let ?w3 = "setTimeout (doorTime cfg) (CloseSettle (Some target))
                 (refreshButtons ((clearDoorTimer ?w2)\<lparr>doors := DoorClosed\<rparr>))"
    let ?t0 = "now w + doorTime cfg"
    from DoorOpen have g3: "?g = ?w3"
      by (simp add: g closeDoors_def Let_def)
    have ok3: "timers_ok ?w3"
      using ok2 by (simp add: timers_ok_setTimeout timers_ok_clearDoorTimer)
    obtain h where tt3: "travel_timers ?w3 = [(h, ?t0, CloseSettle (Some target))]"
      using ok2 tt2 by (simp add: travel_timers_setTimeout travel_timers_clearDoorTimer)
    from next_travel_timer [OF ok3, of cfg] tt3 obtain m1 t where
      ok4: "timers_ok ((fire cfg ^^ m1) ?w3)" and sc: "same_car ((fire cfg ^^ m1) ?w3) ?w3"
      and e: "earliest (timers ((fire cfg ^^ m1) ?w3)) = Some t" and it: "is_travel (tcont t)"
      by auto
    let ?w4 = "(fire cfg ^^ m1) ?w3"
    let ?p = "pop_timer t ?w4"
    from e have tin: "t \<in> set (timers ?w4)" using earliest_Some by blast
    from sc tt3 have tt4: "travel_timers ?w4 = [(h, ?t0, CloseSettle (Some target))]"
      by (simp add: same_car_def)
    from tin it have "t \<in> set (travel_timers ?w4)" by (simp add: travel_timers_def)
    with tt4 have t: "t = (h, ?t0, CloseSettle (Some target))" by simp
    have okp: "timers_ok ?p" and nowp: "now ?p = due t"
      using ok4 e by (rule timers_ok_pop_timer)+
    have ttp: "travel_timers ?p = []"
      using tt4 tin unfolding t by (rule travel_timers_pop_sole)
    have f: "fire cfg ?w4 = goToFloor_resume cfg target ?p"
      using e by (simp add: fire_def [of cfg ?w4] t tcont_def)
    from sc have c4: "current ?w4 = current w" and d4: "direction ?w4 = ?s"
      and h4: "header ?w4 = header ?w2"
      by (simp_all add: same_car_def)
    have cp: "current ?p = current w" and dp: "direction ?p = ?s"
      and hp: "header ?p = header ?w2"
      using c4 d4 h4 by (simp_all add: pop_timer_def)
    have nep: "target \<noteq> current ?p" unfolding cp by (rule ne)
    have dp': "direction ?p = (if target > current ?p then 1 else -1)"
      by (simp only: cp dp)
    have duet: "due t = ?t0" by (simp add: t due_def)
    have tr: "travelling 0 ?n ?s (current w) ?t0 (fire cfg ?w4)"
      using resume_travelling [OF okp ttp nep dp', of cfg]
      by (simp only: cp dp nowp duet f)
    have hf: "header (fire cfg ?w4) = header ?w2"
      using header_resume [OF nep, of cfg] by (simp only: f hp)
    from travel_completes [OF tr, of cfg] obtain m2 where
      "\<not> moving ((fire cfg ^^ m2) (fire cfg ?w4))"
      "direction ((fire cfg ^^ m2) (fire cfg ?w4)) = 0"
      "current ((fire cfg ^^ m2) (fire cfg ?w4)) = current w + int ?n * ?s"
      "selected ((fire cfg ^^ m2) (fire cfg ?w4)) = current w + int ?n * ?s"
      "doors ((fire cfg ^^ m2) (fire cfg ?w4)) = DoorOpen"
      "now ((fire cfg ^^ m2) (fire cfg ?w4)) = ?t0 + ?n * SPEED_PER_FLOOR"
      "header ((fire cfg ^^ m2) (fire cfg ?w4)) =
         header (fire cfg ?w4) @ tick_log ?t0 (current w) ?s 0 ?n"
      by blast
    moreover have "(fire cfg ^^ (m2 + Suc m1)) ?g = (fire cfg ^^ m2) (fire cfg ?w4)"
      by (simp only: funpow_add o_apply g3 funpow.simps)
    ultimately show ?thesis
      using DoorOpen unfolding tgt hf h2 by (intro exI [of _ "m2 + Suc m1"]) simp
  qed
qed

lemma ex_at_floor1_run:
  "run default_cfg [Fire, Wait 300, FloorBtn 1, Fire, Fire, Fire] (init default_cfg) =
   Some ex_at_floor1"
  by (simp add: eval_defs ex_at_floor1_def)

lemma reachable_timers_ok: "reachable cfg w \<Longrightarrow> timers_ok w"
  using reachable_inv by (simp add: inv_def)

text \<open>For instance from floor 1 to floor 5, requested at 3300 ms with the doors open.\<close>

lemma undisturbed_travel_example:
  "\<exists>m. current ((fire default_cfg ^^ m) (goToFloor default_cfg 5 ex_at_floor1)) = 5
       \<and> \<not> moving ((fire default_cfg ^^ m) (goToFloor default_cfg 5 ex_at_floor1))
       \<and> now ((fire default_cfg ^^ m) (goToFloor default_cfg 5 ex_at_floor1)) = 7600
       \<and> header ((fire default_cfg ^^ m) (goToFloor default_cfg 5 ex_at_floor1)) =
           [(0, 0, 0), (1000, 0, 1), (2600, 1, 1), (3300, 1, 1), (4900, 2, 1),
            (5800, 3, 1), (6700, 4, 1), (7600, 5, 1)]"
proof -
  have ok: "timers_ok ex_at_floor1"
    using ex_at_floor1_run by (intro reachable_timers_ok run_from_init)
  have h: "travel_timers ex_at_floor1 = []" "\<not> moving ex_at_floor1"
    "5 \<noteq> current ex_at_floor1"
    by (simp_all add: ex_at_floor1_def travel_timers_def tcont_def)
  have l: "tick_log 4000 1 1 0 4 = [(4900, 2, 1), (5800, 3, 1), (6700, 4, 1), (7600, 5, 1)]"
    by (simp add: tick_log_def SPEED_PER_FLOOR_def upt_rec)
  from undisturbed_travel [OF ok h, of default_cfg] obtain m where
    "current ((fire default_cfg ^^ m) (goToFloor default_cfg 5 ex_at_floor1)) = 5"
    "\<not> moving ((fire default_cfg ^^ m) (goToFloor default_cfg 5 ex_at_floor1))"
    "now ((fire default_cfg ^^ m) (goToFloor default_cfg 5 ex_at_floor1)) = 7600"
    "header ((fire default_cfg ^^ m) (goToFloor default_cfg 5 ex_at_floor1)) =
       header ex_at_floor1 @ (3300, 1, 1) # tick_log 4000 1 1 0 4"
    by (auto simp: ex_at_floor1_def default_cfg_def SPEED_PER_FLOOR_def)
  then show ?thesis unfolding l by (intro exI [of _ m]) (simp add: ex_at_floor1_def)
qed

section \<open>The door-closing suspension of a travel sequence\<close>

text \<open>
  \<^verbatim>\<open>goToFloor\<close> sets \<^verbatim>\<open>state.moving\<close> only after \<^verbatim>\<open>await closeDoors()\<close>. While
  the doors close, \<^verbatim>\<open>moving\<close> is still false, \<^verbatim>\<open>refreshButtons\<close> leaves the floor
  buttons and the Open button enabled, and the guard of line 279 lets a second request
  through. The three runs below use the documented configuration and clicks that the
  page accepts: \<^term>\<open>run\<close> returns \<open>Some\<close> only if every button clicked was
  enabled.
\<close>

text \<open>
  Claim C2: in every reachable state, \<^verbatim>\<open>moving\<close> implies closed doors. The run: the
  page loads and the doors settle open; at 1000 ms floor 3 is clicked and the doors
  start to close; at 1100 ms Open is clicked and the doors are open again; at 1700 ms
  the sleep of \<^verbatim>\<open>closeDoors\<close> ends and \<^verbatim>\<open>goToFloor(3)\<close> sets \<^verbatim>\<open>moving\<close>. The
  state reached has \<^verbatim>\<open>moving\<close> true and the doors open.
\<close>

theorem doors_open_while_travelling:
  "run default_cfg [Fire, Wait 300, FloorBtn 3, Wait 100, OpenBtn, Fire] (init default_cfg) =
   Some \<lparr>current = 0, direction = 1, moving = True, doors = DoorOpen,
     selected = 3, doorTimer = None,
     timers = [(4, 1800, OpenSettle), (5, 2600, TravelTick 0 3 1 0)],
     nextId = 6, now = 1700, btn_moving = True, btn_current = 0,
     btn_active = 3, openBtn_disabled = True, closeBtn_disabled = True,
     header = [(0, 0, 0), (1000, 0, 1)]\<rparr>"
  by (simp add: eval_defs)

text \<open>
  Claim C6: at most one travel sequence is in flight, also during the door-closing
  suspension. The run: at 1000 ms floor 3 is clicked and the doors start to close; at
  1100 ms floor 1 is clicked, passes the guard, finds the doors closed and starts to
  travel; at 1700 ms \<^verbatim>\<open>goToFloor(3)\<close> resumes and starts to travel as well. The state
  reached has the travel loops of both requests suspended in their sleep.
\<close>

theorem second_travel_during_door_closing:
  "run default_cfg [Fire, Wait 300, FloorBtn 3, Wait 100, FloorBtn 1, Fire] (init default_cfg) =
   Some \<lparr>current = 0, direction = 1, moving = True, doors = DoorClosed,
     selected = 1, doorTimer = None,
     timers = [(4, 2000, TravelTick 0 1 1 0), (5, 2600, TravelTick 0 3 1 0)],
     nextId = 6, now = 1700, btn_moving = True, btn_current = 0,
     btn_active = 1, openBtn_disabled = True, closeBtn_disabled = True,
     header = [(0, 0, 0), (1000, 0, 1), (1100, 0, 1)]\<rparr>"
  by (simp add: eval_defs)

text \<open>
  Claim C1: every travel started by \<^verbatim>\<open>goToFloor(target)\<close> ticks \<open>steps\<close> times,
  each tick moving the car one floor in the commanded direction, and ends at the
  target. The run starts with the car idle at floor 1, doors open. At 3300 ms floor 5
  is clicked; at 3400 ms, while the doors close, floor 0 is clicked and that travel
  starts with direction down. At 4000 ms \<^verbatim>\<open>goToFloor(5)\<close> resumes: it computes four
  steps and reads \<^verbatim>\<open>state.direction\<close>, which is now \<open>-1\<close>. Its first tick at
  4900 ms leaves the car at floor 0, where the other travel has put it, and its last
  tick at 7600 ms ends the travel at floor \<open>-3\<close>, not at floor 5.
\<close>

theorem travel_disturbed_by_second_request:
  "run default_cfg [Fire, Wait 300, FloorBtn 1, Fire, Fire, Fire] (init default_cfg) =
     Some ex_at_floor1
   \<and> run default_cfg [FloorBtn 5, Wait 100, FloorBtn 0, Fire] ex_at_floor1 =
     Some \<lparr>current = 1, direction = - 1, moving = True, doors = DoorClosed,
       selected = 0, doorTimer = None,
       timers = [(8, 4300, TravelTick 0 1 (- 1) 1), (9, 4900, TravelTick 0 4 (- 1) 1)],
       nextId = 10, now = 4000, btn_moving = True, btn_current = 1,
       btn_active = 0, openBtn_disabled = True, closeBtn_disabled = True,
       header = [(0, 0, 0), (1000, 0, 1), (2600, 1, 1), (3300, 1, 1), (3400, 1, - 1)]\<rparr>
   \<and> run default_cfg
       [FloorBtn 5, Wait 100, FloorBtn 0, Fire, Fire, Fire, Fire, Fire, Fire, Fire]
       ex_at_floor1 =
     Some \<lparr>current = - 3, direction = 0, moving = False, doors = DoorOpen,
       selected = - 3, doorTimer = Some 15, timers = [(15, 12600, AutoClose)],
       nextId = 16, now = 7600, btn_moving = False, btn_current = - 3,
       btn_active = - 3, openBtn_disabled = True, closeBtn_disabled = False,
       header =
         [(0, 0, 0), (1000, 0, 1), (2600, 1, 1), (3300, 1, 1), (3400, 1, - 1),
          (4300, 0, - 1), (4900, 0, 0), (5800, - 1, 0), (6700, - 2, 0),
          (7600, - 3, 0)]\<rparr>"
  using ex_at_floor1_run by (simp add: eval_defs ex_at_floor1_def)

end
